theory Spec2Isabelle
  imports Main
begin

section \<open>JavaScript values, objects and strings\<close>

text \<open>
  The aggregation script \<^verbatim>\<open>scripts/aggregate.ts\<close> is a TypeScript program for Node.
  Front-matter data is a JavaScript object whose values come from a YAML (or JSON)
  block, so a value may be \<^verbatim>\<open>null\<close>; reading a key an object does not have gives
  \<^verbatim>\<open>undefined\<close>. An object is kept as an association list in insertion order, the
  order in which JavaScript enumerates string keys.
\<close>

datatype jsval =
    JUndefined
  | JNull
  | JBool bool
  | JNum int
  | JStr string
  | JArr "jsval list"
  | JObj "(string \<times> jsval) list"

type_synonym jsobj = "(string \<times> jsval) list"

text \<open>Property read \<^verbatim>\<open>o[k]\<close>: \<^verbatim>\<open>undefined\<close> for a key the object does not have.\<close>

definition obj_get :: "jsobj \<Rightarrow> string \<Rightarrow> jsval" where
  "obj_get obj k = (case map_of obj k of None \<Rightarrow> JUndefined | Some v \<Rightarrow> v)"

definition has_key :: "jsobj \<Rightarrow> string \<Rightarrow> bool" where
  "has_key obj k = (k \<in> set (map fst obj))"

text \<open>
  Property write, as an object literal \<^verbatim>\<open>{...o, k: v}\<close> does it: a key that the spread
  already brought in keeps its position and takes the new value, a new key is appended.
\<close>

fun obj_set :: "jsobj \<Rightarrow> string \<Rightarrow> jsval \<Rightarrow> jsobj" where
  "obj_set [] k v = [(k, v)]"
| "obj_set ((k', v') # rest) k v =
     (if k' = k then (k, v) # rest else (k', v') # obj_set rest k v)"

text \<open>The nullish coalescing operator \<^verbatim>\<open>a ?? b\<close>.\<close>

definition nullish :: "jsval \<Rightarrow> bool" where
  "nullish v = (v = JUndefined \<or> v = JNull)"

definition coalesce :: "jsval \<Rightarrow> jsval \<Rightarrow> jsval" where
  "coalesce a b = (if nullish a then b else a)"

text \<open>
  Strings are lists of characters. \<^verbatim>\<open>s.split(c)\<close> always returns at least one piece;
  \<^verbatim>\<open>parts.join(sep)\<close> is its inverse.
\<close>

fun split_on :: "char \<Rightarrow> string \<Rightarrow> string list" where
  "split_on c [] = [[]]"
| "split_on c (x # xs) =
     (if x = c then [] # split_on c xs
      else (case split_on c xs of
              [] \<Rightarrow> [[x]]
            | s # ss \<Rightarrow> (x # s) # ss))"

fun join_with :: "string \<Rightarrow> string list \<Rightarrow> string" where
  "join_with sep [] = []"
| "join_with sep [s] = s"
| "join_with sep (s # t # ss) = s @ sep @ join_with sep (t # ss)"

definition backslash :: char where
  "backslash = CHR 0x5C"

text \<open>\<^verbatim>\<open>s.replace(/\\/g, '/')\<close>: every backslash becomes a forward slash.\<close>

definition replace_backslashes :: "string \<Rightarrow> string" where
  "replace_backslashes s = map (\<lambda>c. if c = backslash then CHR ''/'' else c) s"

text \<open>
  \<^verbatim>\<open>s.trimStart()\<close> drops leading white space; of JavaScript's white space and line
  terminators the ones a byte string can hold are tab, line feed, vertical tab, form
  feed, carriage return and space.
\<close>

definition js_space :: "char \<Rightarrow> bool" where
  "js_space c = (c \<in> set [CHR 0x09, CHR 0x0A, CHR 0x0B, CHR 0x0C, CHR 0x0D, CHR 0x20])"

definition trimStart :: "string \<Rightarrow> string" where
  "trimStart s = dropWhile js_space s"

section \<open>Node's \<^verbatim>\<open>path.posix\<close>\<close>

text \<open>
  \<^verbatim>\<open>path.posix.join\<close> drops empty arguments, joins the rest with a slash and
  normalizes: empty and \<^verbatim>\<open>.\<close> segments go, a \<^verbatim>\<open>..\<close> removes the segment before it
  (and stays when there is none to remove and the path is relative), a trailing slash
  is kept, and the empty result is \<^verbatim>\<open>.\<close>.
\<close>

fun normalize_segs :: "bool \<Rightarrow> string list \<Rightarrow> string list \<Rightarrow> string list" where
  "normalize_segs allowAboveRoot res [] = res"
| "normalize_segs allowAboveRoot res (s # ss) =
     (if s = [] \<or> s = ''.'' then normalize_segs allowAboveRoot res ss
      else if s = ''..'' then
        (if res \<noteq> [] \<and> last res \<noteq> ''..''
           then normalize_segs allowAboveRoot (butlast res) ss
         else if allowAboveRoot
           then normalize_segs allowAboveRoot (res @ [''..'']) ss
         else normalize_segs allowAboveRoot res ss)
      else normalize_segs allowAboveRoot (res @ [s]) ss)"

definition posix_normalize :: "string \<Rightarrow> string" where
  "posix_normalize p =
     (if p = [] then ''.''
      else
        let isAbsolute = (hd p = CHR ''/'');
            trailingSeparator = (last p = CHR ''/'');
            q = join_with ''/'' (normalize_segs (\<not> isAbsolute) [] (split_on CHR ''/'' p))
        in if q = [] then (if isAbsolute then ''/'' else if trailingSeparator then ''./'' else ''.'')
           else (if isAbsolute then ''/'' else []) @ q @ (if trailingSeparator then ''/'' else []))"

definition posix_join :: "string list \<Rightarrow> string" where
  "posix_join args =
     (let parts = filter (\<lambda>a. a \<noteq> []) args
      in if parts = [] then ''.'' else posix_normalize (join_with ''/'' parts))"

definition posix_dirname :: "string \<Rightarrow> string" where
  "posix_dirname p =
     (let segs = split_on CHR ''/'' p
      in if length segs \<le> 1 then ''.''
         else if butlast segs = [[]] then ''/''
         else join_with ''/'' (butlast segs))"

section \<open>The repository table\<close>

record RepoSpec =
  repo :: string
  local :: string
  docsDir :: "string option"
  branch :: "string option"

definition REPOS :: "RepoSpec list" where
  "REPOS =
     [\<lparr>repo = ''peers-app/peers-sdk'', local = ''_sources/peers-sdk'',
        docsDir = Some ''docs'', branch = Some ''main''\<rparr>,
      \<lparr>repo = ''peers-app/peers-ui'', local = ''_sources/peers-ui'',
        docsDir = Some ''.'', branch = Some ''main''\<rparr>,
      \<lparr>repo = ''peers-app/peers-host'', local = ''_sources/peers-host'',
        docsDir = Some ''.'', branch = Some ''main''\<rparr>,
      \<lparr>repo = ''peers-app/peers-electron'', local = ''_sources/peers-electron'',
        docsDir = Some ''.'', branch = Some ''main''\<rparr>,
      \<lparr>repo = ''peers-app/peers-react-native'', local = ''_sources/peers-react-native'',
        docsDir = Some ''.'', branch = Some ''main''\<rparr>]"

definition OUT_ROOT :: string where
  "OUT_ROOT = ''projects''"

text \<open>\<^verbatim>\<open>r.docsDir ?? 'docs'\<close> and \<^verbatim>\<open>r.branch ?? 'main'\<close>.\<close>

definition docsDir_or_default :: "RepoSpec \<Rightarrow> string" where
  "docsDir_or_default r = (case docsDir r of None \<Rightarrow> ''docs'' | Some d \<Rightarrow> d)"

definition branch_or_default :: "RepoSpec \<Rightarrow> string" where
  "branch_or_default r = (case branch r of None \<Rightarrow> ''main'' | Some b \<Rightarrow> b)"

text \<open>\<^verbatim>\<open>r.repo.split('/')[1]\<close>, which is \<^verbatim>\<open>undefined\<close> when the identifier has no slash.\<close>

definition short_name :: "RepoSpec \<Rightarrow> string option" where
  "short_name r = (case split_on CHR ''/'' (repo r) of a # b # rest \<Rightarrow> Some b | _ \<Rightarrow> None)"

section \<open>The edit URL (lines 69 and 70)\<close>

definition sourceRelPath :: "RepoSpec \<Rightarrow> string \<Rightarrow> string" where
  "sourceRelPath r rel =
     (if docsDir r = Some ''.'' then rel else posix_join [docsDir_or_default r, rel])"

definition custom_url :: "RepoSpec \<Rightarrow> string \<Rightarrow> string" where
  "custom_url r rel =
     ''https://github.com/'' @ repo r @ ''/edit/'' @ branch_or_default r @ ''/''
       @ replace_backslashes (sourceRelPath r rel)"

section \<open>The front-matter merge (lines 72 to 76)\<close>

definition merge_data :: "jsobj \<Rightarrow> string \<Rightarrow> jsobj" where
  "merge_data fm_data custom =
     obj_set fm_data ''custom_edit_url''
       (coalesce (obj_get fm_data ''custom_edit_url'') (JStr custom))"

section \<open>The host: file system, glob walk and front-matter codec\<close>

text \<open>
  The script reaches the outside world through \<^verbatim>\<open>fs-extra\<close>, \<^verbatim>\<open>globby\<close>,
  \<^verbatim>\<open>gray-matter\<close> and \<^verbatim>\<open>node:path\<close>. Each call is a field of the host record,
  over a state of the file system \<open>'w\<close>; a call that throws (a rejected promise under
  \<^verbatim>\<open>await\<close>) returns \<open>Inl\<close> of the error. \<^verbatim>\<open>path.join\<close> and
  \<^verbatim>\<open>path.dirname\<close> follow the host's separator conventions, so they are fields too.
  \<^verbatim>\<open>fse.existsSync\<close> never throws.
\<close>

datatype errno = ENOENT | EACCES | ENOSPC | ENOTDIR | EEXIST | EIO

datatype js_error = FsError errno | TypeError | OtherError string

record gm_file =
  data :: jsobj
  content :: string

record 'w sys =
  path_join :: "string \<Rightarrow> string \<Rightarrow> string"
  path_dirname :: "string \<Rightarrow> string"
  emptyDir :: "string \<Rightarrow> 'w \<Rightarrow> js_error + 'w"
  existsSync :: "string \<Rightarrow> 'w \<Rightarrow> bool"
  ensureDir :: "string \<Rightarrow> 'w \<Rightarrow> js_error + 'w"
  copy :: "string \<Rightarrow> string \<Rightarrow> 'w \<Rightarrow> js_error + 'w"
  walk :: "string \<Rightarrow> 'w \<Rightarrow> js_error + string list"
  readFile :: "string \<Rightarrow> 'w \<Rightarrow> js_error + string"
  writeFile :: "string \<Rightarrow> string \<Rightarrow> 'w \<Rightarrow> js_error + 'w"
  matter :: "string \<Rightarrow> js_error + gm_file"
  stringify :: "string \<Rightarrow> jsobj \<Rightarrow> js_error + string"

text \<open>Sequencing of awaited calls: the first error ends the sequence.\<close>

definition and_then :: "'e + 'a \<Rightarrow> ('a \<Rightarrow> 'e + 'b) \<Rightarrow> 'e + 'b" where
  "and_then m f = (case m of Inl e \<Rightarrow> Inl e | Inr x \<Rightarrow> f x)"

subsection \<open>Glob patterns\<close>

text \<open>
  \<^verbatim>\<open>globby(patterns, {cwd})\<close> walks the regular files under \<^verbatim>\<open>cwd\<close> (field
  \<open>walk\<close>: their paths relative to \<^verbatim>\<open>cwd\<close>, with forward slashes on every host) and
  keeps those that match one of the patterns. In a pattern, \<^verbatim>\<open>*\<close> stands for any run
  of characters inside one path segment and a segment \<^verbatim>\<open>**\<close> for any number of
  directories; with the default \<^verbatim>\<open>dot: false\<close> neither matches a name that starts with
  a dot.
\<close>

fun wild_match :: "string \<Rightarrow> string \<Rightarrow> bool" where
  "wild_match [] s = (s = [])"
| "wild_match (p # ps) [] = (p = CHR ''*'' \<and> wild_match ps [])"
| "wild_match (p # ps) (c # cs) =
     (if p = CHR ''*'' then wild_match ps (c # cs) \<or> wild_match (p # ps) cs
      else p = c \<and> wild_match ps cs)"

definition dot_name :: "string \<Rightarrow> bool" where
  "dot_name n = (case n of [] \<Rightarrow> False | c # cs \<Rightarrow> c = CHR ''.'')"

definition name_match :: "string \<Rightarrow> string \<Rightarrow> bool" where
  "name_match p n =
     (if n = [] then False
      else if dot_name n then dot_name p \<and> wild_match p n
      else wild_match p n)"

fun segs_match :: "string list \<Rightarrow> string list \<Rightarrow> bool" where
  "segs_match [] ns = (ns = [])"
| "segs_match (p # ps) [] = (p = ''**'' \<and> segs_match ps [])"
| "segs_match (p # ps) (n # ns) =
     (if p = ''**'' then segs_match ps (n # ns) \<or> (\<not> dot_name n \<and> n \<noteq> [] \<and> segs_match (p # ps) ns)
      else name_match p n \<and> segs_match ps ns)"

definition glob_match :: "string \<Rightarrow> string \<Rightarrow> bool" where
  "glob_match pattern file = segs_match (split_on CHR ''/'' pattern) (split_on CHR ''/'' file)"

definition globby :: "'w sys \<Rightarrow> string list \<Rightarrow> string \<Rightarrow> 'w \<Rightarrow> js_error + string list" where
  "globby sys patterns cwd w =
     and_then (walk sys cwd w)
       (\<lambda>found. Inr (filter (\<lambda>file. \<exists>p \<in> set patterns. glob_match p file) found))"

section \<open>The aggregation run\<close>

record 'w state =
  world :: 'w
  warnings :: "string list"
  logs :: "string list"

definition newline :: char where
  "newline = CHR 0x0A"

text \<open>Lines 41 to 43: the first pass of the root-level convention.\<close>

fun copy_markdownFiles :: "'w sys \<Rightarrow> string \<Rightarrow> string \<Rightarrow> string list \<Rightarrow> 'w \<Rightarrow> js_error + 'w" where
  "copy_markdownFiles sys srcDocs out [] w = Inr w"
| "copy_markdownFiles sys srcDocs out (file # rest) w =
     and_then (copy sys (path_join sys srcDocs file) (path_join sys out file) w)
       (\<lambda>w'. copy_markdownFiles sys srcDocs out rest w')"

text \<open>Lines 46 to 55: the second pass of the root-level convention.\<close>

definition docPatterns :: "string list" where
  "docPatterns = [''docs/**/*'', ''documentation/**/*'', ''*.md'', ''CLAUDE.md'']"

fun copy_docFiles :: "'w sys \<Rightarrow> string \<Rightarrow> string \<Rightarrow> string list \<Rightarrow> 'w \<Rightarrow> js_error + 'w" where
  "copy_docFiles sys srcDocs out [] w = Inr w"
| "copy_docFiles sys srcDocs out (file # rest) w =
     (let srcFile = path_join sys srcDocs file;
          destFile = path_join sys out file
      in if existsSync sys srcFile w
         then and_then (ensureDir sys (path_dirname sys destFile) w)
                (\<lambda>w1. and_then (copy sys srcFile destFile w1)
                   (\<lambda>w2. copy_docFiles sys srcDocs out rest w2))
         else copy_docFiles sys srcDocs out rest w)"

text \<open>Lines 36 to 59: what is copied, by convention.\<close>

definition copy_docs :: "'w sys \<Rightarrow> RepoSpec \<Rightarrow> string \<Rightarrow> string \<Rightarrow> 'w \<Rightarrow> js_error + 'w" where
  "copy_docs sys r srcDocs out w =
     (if docsDir r = Some ''.''
      then and_then (ensureDir sys out w)
             (\<lambda>w1. and_then (globby sys [''*.md'', ''*.mdx''] srcDocs w1)
                (\<lambda>markdownFiles. and_then (copy_markdownFiles sys srcDocs out markdownFiles w1)
                   (\<lambda>w2. and_then (globby sys docPatterns srcDocs w2)
                      (\<lambda>docFiles. copy_docFiles sys srcDocs out docFiles w2))))
      else copy sys srcDocs out w)"

text \<open>Lines 63 to 79: one document gets its \<^verbatim>\<open>custom_edit_url\<close>.\<close>

definition inject_file :: "'w sys \<Rightarrow> RepoSpec \<Rightarrow> string \<Rightarrow> string \<Rightarrow> 'w \<Rightarrow> js_error + 'w" where
  "inject_file sys r out rel w =
     (let abs = path_join sys out rel
      in and_then (readFile sys abs w)
           (\<lambda>raw. and_then (matter sys raw)
              (\<lambda>fm. and_then
                 (stringify sys (trimStart (content fm) @ [newline])
                    (merge_data (data fm) (custom_url r rel)))
                 (\<lambda>doc. writeFile sys abs doc w))))"

fun inject_files :: "'w sys \<Rightarrow> RepoSpec \<Rightarrow> string \<Rightarrow> string list \<Rightarrow> 'w \<Rightarrow> js_error + 'w" where
  "inject_files sys r out [] w = Inr w"
| "inject_files sys r out (rel # rest) w =
     and_then (inject_file sys r out rel w) (\<lambda>w'. inject_files sys r out rest w')"

text \<open>Lines 61 to 79.\<close>

definition inject_custom_edit_url :: "'w sys \<Rightarrow> RepoSpec \<Rightarrow> string \<Rightarrow> 'w \<Rightarrow> js_error + 'w" where
  "inject_custom_edit_url sys r out w =
     and_then (globby sys [''**/*.md'', ''**/*.mdx''] out w)
       (\<lambda>found. inject_files sys r out found w)"

text \<open>Lines 81 to 92: the index added when the repo brought none.\<close>

definition indexCandidates :: "string list" where
  "indexCandidates = [''index.md'', ''README.md'']"

definition hasIndex :: "'w sys \<Rightarrow> string \<Rightarrow> 'w \<Rightarrow> bool" where
  "hasIndex sys out w = list_ex (\<lambda>n. existsSync sys (path_join sys out n) w) indexCandidates"

definition index_body :: "RepoSpec \<Rightarrow> string \<Rightarrow> string" where
  "index_body r name =
     ''# '' @ name @ [newline, newline] @ ''Project documentation aggregated from `''
       @ repo r @ ''`.'' @ [newline]"

definition index_data :: "RepoSpec \<Rightarrow> jsobj" where
  "index_data r = [(''custom_edit_url'', JStr (''https://github.com/'' @ repo r))]"

definition add_index :: "'w sys \<Rightarrow> RepoSpec \<Rightarrow> string \<Rightarrow> string \<Rightarrow> 'w \<Rightarrow> js_error + 'w" where
  "add_index sys r name out w =
     (if hasIndex sys out w then Inr w
      else and_then (stringify sys (index_body r name) (index_data r))
             (\<lambda>doc. writeFile sys (path_join sys out ''index.md'') doc w))"

text \<open>
  Lines 27 to 92, the body of the loop over the table. \<^verbatim>\<open>path.join\<close> throws a
  \<^verbatim>\<open>TypeError\<close> on an argument that is not a string, which is what the short name is
  when the identifier has no slash.
\<close>

definition srcDocs_of :: "'w sys \<Rightarrow> RepoSpec \<Rightarrow> string" where
  "srcDocs_of sys r = path_join sys (local r) (docsDir_or_default r)"

definition skip_warning :: "'w sys \<Rightarrow> RepoSpec \<Rightarrow> string" where
  "skip_warning sys r = ''[skip] '' @ repo r @ '' has no '' @ srcDocs_of sys r"

definition process_repo :: "'w sys \<Rightarrow> RepoSpec \<Rightarrow> 'w state \<Rightarrow> js_error + 'w state" where
  "process_repo sys r st =
     (let srcDocs = srcDocs_of sys r
      in case short_name r of
           None \<Rightarrow> Inl TypeError
         | Some name \<Rightarrow>
             let out = path_join sys OUT_ROOT name
             in if \<not> existsSync sys srcDocs (world st)
                then Inr (st\<lparr>warnings := warnings st @ [skip_warning sys r]\<rparr>)
                else and_then (copy_docs sys r srcDocs out (world st))
                       (\<lambda>w1. and_then (inject_custom_edit_url sys r out w1)
                          (\<lambda>w2. and_then (add_index sys r name out w2)
                             (\<lambda>w3. Inr (st\<lparr>world := w3\<rparr>)))))"

fun run_repos :: "'w sys \<Rightarrow> RepoSpec list \<Rightarrow> 'w state \<Rightarrow> js_error + 'w state" where
  "run_repos sys [] st = Inr st"
| "run_repos sys (r # rest) st =
     and_then (process_repo sys r st) (\<lambda>st'. run_repos sys rest st')"

text \<open>Lines 23 to 96, over a table given as a parameter, and \<^verbatim>\<open>run\<close> itself.\<close>

definition run_with :: "'w sys \<Rightarrow> RepoSpec list \<Rightarrow> 'w \<Rightarrow> js_error + 'w state" where
  "run_with sys repos w =
     and_then (emptyDir sys OUT_ROOT w)
       (\<lambda>w0. and_then (run_repos sys repos \<lparr>world = w0, warnings = [], logs = []\<rparr>)
          (\<lambda>st. Inr (st\<lparr>logs := logs st @ [''Aggregation complete.'']\<rparr>)))"

definition run :: "'w sys \<Rightarrow> 'w \<Rightarrow> js_error + 'w state" where
  "run sys w = run_with sys REPOS w"

text \<open>
  Lines 98 to 101: the process ends with status 1 when \<^verbatim>\<open>run\<close> rejects, and with
  status 0 otherwise.
\<close>

definition exit_status :: "js_error + 'a \<Rightarrow> nat" where
  "exit_status result = (case result of Inl err \<Rightarrow> 1 | Inr done \<Rightarrow> 0)"

text \<open>
  The script as a process. Node hands a process its environment variables in
  \<^verbatim>\<open>process.env\<close>; the top level of the script defines the table and the output root
  as constants and calls \<^verbatim>\<open>run\<close>, and nothing in it reads \<^verbatim>\<open>process.env\<close>.
\<close>

definition aggregate_script :: "(string \<Rightarrow> string option) \<Rightarrow> 'w sys \<Rightarrow> 'w \<Rightarrow> js_error + 'w state" where
  "aggregate_script env sys w = run sys w"

section \<open>The front-matter codec\<close>

text \<open>
  Modelled from the spec: the Front-Matter Codec. The script calls \<^verbatim>\<open>gray-matter\<close>
  for it, whose code is not among the sources. Following sections 4.2 and 6 of the
  specification, front matter is a block of \<^verbatim>\<open>key: value\<close> lines between a line that is
  exactly \<^verbatim>\<open>---\<close> at the very start of the document and the next such line;
  \<open>decode\<close> splits a document into the mapping and the body, and a document whose
  block is absent or malformed decodes to the empty mapping and the whole document as
  its body. \<open>encode\<close> is the inverse direction.
\<close>

definition fence :: string where
  "fence = ''---''"

definition parse_scalar :: "string \<Rightarrow> jsval" where
  "parse_scalar s =
     (if s = [] \<or> s = ''null'' \<or> s = ''~'' then JNull
      else if s = ''true'' then JBool True
      else if s = ''false'' then JBool False
      else JStr s)"

definition parse_entry :: "string \<Rightarrow> (string \<times> jsval) option" where
  "parse_entry line =
     (let key = takeWhile (\<lambda>c. c \<noteq> CHR '':'') line;
          rest = dropWhile (\<lambda>c. c \<noteq> CHR '':'') line
      in if key = [] \<or> rest = [] \<or> CHR '' '' \<in> set key then None
         else case tl rest of
                [] \<Rightarrow> Some (key, JNull)
              | c # v \<Rightarrow> if c = CHR '' '' then Some (key, parse_scalar (trimStart v)) else None)"

fun parse_block :: "string list \<Rightarrow> jsobj option" where
  "parse_block [] = Some []"
| "parse_block (l # ls) =
     (case parse_entry l of
        None \<Rightarrow> None
      | Some (k, v) \<Rightarrow>
          (case parse_block ls of
             None \<Rightarrow> None
           | Some fm \<Rightarrow> if has_key fm k then None else Some ((k, v) # fm)))"

text \<open>
  Modelled from the spec: \<open>decode(document)\<close> of section 4.2, for which the script calls
  \<^verbatim>\<open>matter(raw)\<close> of \<^verbatim>\<open>gray-matter\<close>. An absent or malformed block is no metadata:
  the empty mapping, and the original content as the body.
\<close>

definition decode :: "string \<Rightarrow> gm_file" where
  "decode document =
     (case split_on newline document of
        [] \<Rightarrow> \<lparr>data = [], content = document\<rparr>
      | first # rest \<Rightarrow>
          if first = fence \<and> fence \<in> set rest
          then (case parse_block (takeWhile (\<lambda>l. l \<noteq> fence) rest) of
                  None \<Rightarrow> \<lparr>data = [], content = document\<rparr>
                | Some fm \<Rightarrow>
                    \<lparr>data = fm,
                     content = join_with [newline] (tl (dropWhile (\<lambda>l. l \<noteq> fence) rest))\<rparr>)
          else \<lparr>data = [], content = document\<rparr>)"

fun show_nat :: "nat \<Rightarrow> string" where
  "show_nat n =
     (if n < 10 then [char_of (48 + n)] else show_nat (n div 10) @ [char_of (48 + n mod 10)])"

fun render :: "jsval \<Rightarrow> string"
  and render_items :: "jsval list \<Rightarrow> string"
  and render_fields :: "(string \<times> jsval) list \<Rightarrow> string" where
  "render JUndefined = ''undefined''"
| "render JNull = ''null''"
| "render (JBool b) = (if b then ''true'' else ''false'')"
| "render (JNum i) = (if i < 0 then ''-'' @ show_nat (nat (- i)) else show_nat (nat i))"
| "render (JStr s) = s"
| "render (JArr vs) = ''['' @ render_items vs @ '']''"
| "render (JObj kvs) = ''{'' @ render_fields kvs @ ''}''"
| "render_items [] = []"
| "render_items [v] = render v"
| "render_items (v # w # vs) = render v @ '', '' @ render_items (w # vs)"
| "render_fields [] = []"
| "render_fields [(k, v)] = k @ '': '' @ render v"
| "render_fields ((k, v) # kv # kvs) = k @ '': '' @ render v @ '', '' @ render_fields (kv # kvs)"

text \<open>
  Modelled from the spec: \<open>encode(frontMatter, body)\<close> of section 4.2, for which the
  script calls \<^verbatim>\<open>matter.stringify\<close> of \<^verbatim>\<open>gray-matter\<close>.
\<close>

definition encode :: "jsobj \<Rightarrow> string \<Rightarrow> string" where
  "encode fm body =
     fence @ [newline] @ concat (map (\<lambda>(k, v). k @ '': '' @ render v @ [newline]) fm)
       @ fence @ [newline] @ body"

section \<open>An in-memory host\<close>

text \<open>
  A host to run the script on: a file system that is a list of files (path and
  content) and a list of directories, with POSIX paths. A directory also exists when
  something lies under it. Copying a directory copies everything under it; writing a
  file needs its directory to exist; reading or copying what is not there fails with
  \<open>ENOENT\<close>.
\<close>

record memfs =
  mem_files :: "(string \<times> string) list"
  mem_dirs :: "string list"

definition under :: "string \<Rightarrow> string \<Rightarrow> bool" where
  "under dir p = (take (Suc (length dir)) p = dir @ ''/'' \<and> length dir + 1 < length p)"

definition is_file :: "string \<Rightarrow> memfs \<Rightarrow> bool" where
  "is_file p w = (p \<in> set (map fst (mem_files w)))"

definition mem_exists :: "string \<Rightarrow> memfs \<Rightarrow> bool" where
  "mem_exists p w =
     (is_file p w \<or> p \<in> set (mem_dirs w)
      \<or> list_ex (under p) (map fst (mem_files w)) \<or> list_ex (under p) (mem_dirs w))"

fun put_file :: "(string \<times> string) list \<Rightarrow> string \<Rightarrow> string \<Rightarrow> (string \<times> string) list" where
  "put_file [] p c = [(p, c)]"
| "put_file ((p', c') # rest) p c =
     (if p' = p then (p, c) # rest else (p', c') # put_file rest p c)"

definition rebase :: "string \<Rightarrow> string \<Rightarrow> string \<Rightarrow> string" where
  "rebase src dst p = dst @ drop (length src) p"

definition mem_emptyDir :: "string \<Rightarrow> memfs \<Rightarrow> js_error + memfs" where
  "mem_emptyDir dir w =
     (if is_file dir w then Inl (FsError EEXIST)
      else Inr \<lparr>mem_files = filter (\<lambda>(p, c). \<not> under dir p) (mem_files w),
                mem_dirs = filter (\<lambda>p. p \<noteq> dir \<and> \<not> under dir p) (mem_dirs w) @ [dir]\<rparr>)"

definition mem_ensureDir :: "string \<Rightarrow> memfs \<Rightarrow> js_error + memfs" where
  "mem_ensureDir dir w =
     (if is_file dir w then Inl (FsError EEXIST)
      else if dir \<in> set (mem_dirs w) then Inr w
      else Inr (w\<lparr>mem_dirs := mem_dirs w @ [dir]\<rparr>))"

fun put_files :: "(string \<times> string) list \<Rightarrow> (string \<times> string) list \<Rightarrow> (string \<times> string) list" where
  "put_files fs [] = fs"
| "put_files fs ((p, c) # others) = put_files (put_file fs p c) others"

definition mem_copy :: "string \<Rightarrow> string \<Rightarrow> memfs \<Rightarrow> js_error + memfs" where
  "mem_copy src dst w =
     (case map_of (mem_files w) src of
        Some c \<Rightarrow> Inr (w\<lparr>mem_files := put_file (mem_files w) dst c\<rparr>)
      | None \<Rightarrow>
          if mem_exists src w
          then Inr \<lparr>mem_files =
                      put_files (mem_files w)
                        (map (\<lambda>(p, c). (rebase src dst p, c))
                           (filter (\<lambda>(p, c). under src p) (mem_files w))),
                    mem_dirs =
                      mem_dirs w @ [dst]
                        @ map (rebase src dst) (filter (under src) (mem_dirs w))\<rparr>
          else Inl (FsError ENOENT))"

definition mem_walk :: "string \<Rightarrow> memfs \<Rightarrow> js_error + string list" where
  "mem_walk cwd w =
     Inr (map (\<lambda>(p, c). drop (Suc (length cwd)) p) (filter (\<lambda>(p, c). under cwd p) (mem_files w)))"

definition mem_readFile :: "string \<Rightarrow> memfs \<Rightarrow> js_error + string" where
  "mem_readFile p w =
     (case map_of (mem_files w) p of None \<Rightarrow> Inl (FsError ENOENT) | Some c \<Rightarrow> Inr c)"

definition mem_writeFile :: "string \<Rightarrow> string \<Rightarrow> memfs \<Rightarrow> js_error + memfs" where
  "mem_writeFile p c w =
     (if mem_exists (posix_dirname p) w \<and> \<not> is_file (posix_dirname p) w
      then Inr (w\<lparr>mem_files := put_file (mem_files w) p c\<rparr>)
      else Inl (FsError ENOENT))"

definition mem_sys :: "memfs sys" where
  "mem_sys =
     \<lparr>path_join = (\<lambda>a b. posix_join [a, b]),
      path_dirname = posix_dirname,
      emptyDir = mem_emptyDir,
      existsSync = mem_exists,
      ensureDir = mem_ensureDir,
      copy = mem_copy,
      walk = mem_walk,
      readFile = mem_readFile,
      writeFile = mem_writeFile,
      matter = (\<lambda>raw. Inr (decode raw)),
      stringify = (\<lambda>body fm. Inr (encode fm body))\<rparr>"

section \<open>Plain paths and the URL prefix\<close>

text \<open>
  A plain path has no empty, \<^verbatim>\<open>.\<close> or \<^verbatim>\<open>..\<close> segment: a relative path as the glob
  walk returns it, or a directory name such as \<^verbatim>\<open>docs\<close>.
\<close>

definition plain_segment :: "string \<Rightarrow> bool" where
  "plain_segment s = (s \<noteq> [] \<and> s \<noteq> ''.'' \<and> s \<noteq> ''..'')"

definition plain_path :: "string \<Rightarrow> bool" where
  "plain_path p = list_all plain_segment (split_on CHR ''/'' p)"

definition url_prefix :: "RepoSpec \<Rightarrow> string" where
  "url_prefix r = ''https://github.com/'' @ repo r @ ''/edit/'' @ branch_or_default r @ ''/''"

section \<open>Properties of hosts and of file names\<close>

text \<open>
  A host keeps paths when creating a directory, copying and writing never remove a path
  that exists, and a file that was written exists afterwards.
\<close>

definition keeps_paths :: "'w sys \<Rightarrow> bool" where
  "keeps_paths sys =
     ((\<forall>p d w w'. existsSync sys p w \<and> ensureDir sys d w = Inr w' \<longrightarrow> existsSync sys p w')
      \<and> (\<forall>p s d w w'. existsSync sys p w \<and> copy sys s d w = Inr w' \<longrightarrow> existsSync sys p w')
      \<and> (\<forall>p f c w w'. existsSync sys p w \<and> writeFile sys f c w = Inr w' \<longrightarrow> existsSync sys p w')
      \<and> (\<forall>f c w w'. writeFile sys f c w = Inr w' \<longrightarrow> existsSync sys f w'))"

text \<open>The markdown family of extensions: \<^verbatim>\<open>.md\<close> and \<^verbatim>\<open>.mdx\<close>.\<close>

definition ends_with :: "string \<Rightarrow> string \<Rightarrow> bool" where
  "ends_with ending s = (length ending \<le> length s \<and> drop (length s - length ending) s = ending)"

definition markdown_family :: "string \<Rightarrow> bool" where
  "markdown_family file = (ends_with ''.md'' file \<or> ends_with ''.mdx'' file)"

text \<open>The names an in-memory file system holds, and a look at the result of a run.\<close>

definition mem_names :: "memfs \<Rightarrow> string set" where
  "mem_names w = fst ` set (mem_files w) \<union> set (mem_dirs w)"

definition exists_after :: "string \<Rightarrow> js_error + memfs state \<Rightarrow> bool" where
  "exists_after p result = (case result of Inl err \<Rightarrow> False | Inr st \<Rightarrow> mem_exists p (world st))"

text \<open>
  A host reads back what was written: reading a file that has just been written gives
  the content written.
\<close>

definition reads_back :: "'w sys \<Rightarrow> bool" where
  "reads_back sys = (\<forall>f c w w'. writeFile sys f c w = Inr w' \<longrightarrow> readFile sys f w' = Inr c)"

text \<open>
  A file lies in a documentation directory when its path begins with \<^verbatim>\<open>docs/\<close> or
  \<^verbatim>\<open>documentation/\<close> and no segment after that is empty or begins with a dot.
\<close>

definition seg_visible :: "string \<Rightarrow> bool" where
  "seg_visible n = (n \<noteq> [] \<and> \<not> dot_name n)"

definition in_doc_dir :: "string \<Rightarrow> bool" where
  "in_doc_dir file =
     (case split_on CHR ''/'' file of
        d # n # ns \<Rightarrow> (d = ''docs'' \<or> d = ''documentation'') \<and> list_all seg_visible (n # ns)
      | _ \<Rightarrow> False)"

text \<open>
  What an in-memory file system holds outside a directory: its files and directories
  that are neither the directory nor under it.
\<close>

definition outside :: "string \<Rightarrow> memfs \<Rightarrow> (string \<times> string) list \<times> string list" where
  "outside root w =
     (filter (\<lambda>(p, c). \<not> under root p) (mem_files w),
      filter (\<lambda>p. p \<noteq> root \<and> \<not> under root p) (mem_dirs w))"

text \<open>
  A repo is well named when the part of its identifier after the slash is a plain path:
  its output directory then lies under the output root.
\<close>

definition well_named :: "RepoSpec \<Rightarrow> bool" where
  "well_named r = (case short_name r of None \<Rightarrow> False | Some name \<Rightarrow> plain_path name)"

text \<open>A pattern none of whose segments, \<^verbatim>\<open>**\<close> apart, begins with a dot.\<close>

definition pattern_ok :: "string \<Rightarrow> bool" where
  "pattern_ok pat = list_all (\<lambda>p. p = ''**'' \<or> \<not> dot_name p) (split_on CHR ''/'' pat)"

section \<open>Example inputs\<close>

definition sdk_repo :: RepoSpec where
  "sdk_repo = \<lparr>repo = ''org/sdk'', local = ''_sources/sdk'', docsDir = Some ''docs'', branch = Some ''main''\<rparr>"

definition ui_repo :: RepoSpec where
  "ui_repo = \<lparr>repo = ''org/ui'', local = ''_sources/ui'', docsDir = Some ''.'', branch = Some ''main''\<rparr>"

definition odd_branch_repo :: RepoSpec where
  "odd_branch_repo = \<lparr>repo = ''org/ui'', local = ''_sources/ui'', docsDir = Some ''.'',
      branch = Some (''fix'' @ [backslash] @ ''1'')\<rparr>"

definition authored_doc :: string where
  "authored_doc =
     ''---'' @ [newline] @ ''title: UI'' @ [newline]
       @ ''custom_edit_url: https://example.org/edit-me'' @ [newline]
       @ ''---'' @ [newline] @ ''# UI''"

definition authored_world :: memfs where
  "authored_world =
     \<lparr>mem_files = [(''projects/ui/README.md'', authored_doc)],
      mem_dirs = [''projects'', ''projects/ui'']\<rparr>"

definition null_url_doc :: string where
  "null_url_doc =
     ''---'' @ [newline] @ ''title: UI'' @ [newline] @ ''custom_edit_url: null'' @ [newline]
       @ ''---'' @ [newline] @ ''# UI''"

definition null_url_world :: memfs where
  "null_url_world =
     \<lparr>mem_files = [(''projects/ui/README.md'', null_url_doc)],
      mem_dirs = [''projects'', ''projects/ui'']\<rparr>"

definition gone_repo :: RepoSpec where
  "gone_repo = \<lparr>repo = ''org/gone'', local = ''_sources/gone'', docsDir = Some ''.'', branch = Some ''main''\<rparr>"

definition demo_repos :: "RepoSpec list" where
  "demo_repos = [sdk_repo, gone_repo, ui_repo]"

definition demo_world :: memfs where
  "demo_world =
     \<lparr>mem_files =
        [(''_sources/sdk/docs/devices.md'', ''# Devices''),
         (''_sources/sdk/docs/logo.png'', ''PNG''),
         (''_sources/sdk/README.md'', ''# SDK''),
         (''_sources/ui/README.md'', null_url_doc),
         (''_sources/ui/docs/shot.png'', ''PNG''),
         (''_sources/ui/package.json'', ''{}''),
         (''projects/stale/old.md'', ''# Old'')],
      mem_dirs = []\<rparr>"

definition demo_final :: "memfs state" where
  "demo_final =
     (case run_with mem_sys demo_repos demo_world of
        Inr st \<Rightarrow> st
      | Inl err \<Rightarrow> \<lparr>world = demo_world, warnings = [], logs = []\<rparr>)"

text \<open>
  A host on which the source of a copy is gone by the time it is copied, as when another
  process removes it after the script has looked: every copy fails with \<open>ENOENT\<close>.
\<close>

definition vanishing_sys :: "memfs sys" where
  "vanishing_sys = mem_sys\<lparr>copy := (\<lambda>src dst w. Inl (FsError ENOENT))\<rparr>"

definition sdk_world :: memfs where
  "sdk_world =
     \<lparr>mem_files = [(''_sources/sdk/docs/devices.md'', ''# Devices'')], mem_dirs = []\<rparr>"

text \<open>The sources the test suite sets up (two of its five repos), and its environment.\<close>

definition test_env :: "string \<Rightarrow> string option" where
  "test_env = [''OUT_ROOT'' \<mapsto> ''test-projects'']"

definition test_sources :: memfs where
  "test_sources =
     \<lparr>mem_files =
        [(''_sources/peers-sdk/docs/index.md'', ''# Peers SDK''),
         (''_sources/peers-sdk/README.md'', ''# Peers SDK''),
         (''_sources/peers-ui/README.md'', ''# Peers UI'')],
      mem_dirs = []\<rparr>"

text \<open>
  The stages of the run on the example: the output root emptied, the first repo copied,
  rewritten and done, the directory of the second created, its documents copied and
  rewritten, and the run over the two repos that exist.
\<close>

definition demo_cleared :: memfs where
  "demo_cleared = (case emptyDir mem_sys OUT_ROOT demo_world of Inr w \<Rightarrow> w | Inl err \<Rightarrow> demo_world)"

definition demo_cleared_state :: "memfs state" where
  "demo_cleared_state = \<lparr>world = demo_cleared, warnings = [], logs = []\<rparr>"

definition sdk_copied :: memfs where
  "sdk_copied =
     (case copy_docs mem_sys sdk_repo ''_sources/sdk/docs'' ''projects/sdk'' demo_cleared of
        Inr w \<Rightarrow> w | Inl err \<Rightarrow> demo_cleared)"

definition sdk_injected :: memfs where
  "sdk_injected =
     (case inject_custom_edit_url mem_sys sdk_repo ''projects/sdk'' sdk_copied of
        Inr w \<Rightarrow> w | Inl err \<Rightarrow> sdk_copied)"

definition sdk_done :: "memfs state" where
  "sdk_done =
     (case run_repos mem_sys [sdk_repo] demo_cleared_state of
        Inr st \<Rightarrow> st | Inl err \<Rightarrow> demo_cleared_state)"

definition ui_ensured :: memfs where
  "ui_ensured =
     (case ensureDir mem_sys ''projects/ui'' (world sdk_done) of
        Inr w \<Rightarrow> w | Inl err \<Rightarrow> world sdk_done)"

definition ui_copied :: memfs where
  "ui_copied =
     (case copy_docs mem_sys ui_repo ''_sources/ui'' ''projects/ui'' (world sdk_done) of
        Inr w \<Rightarrow> w | Inl err \<Rightarrow> world sdk_done)"

definition ui_injected :: memfs where
  "ui_injected =
     (case inject_custom_edit_url mem_sys ui_repo ''projects/ui'' ui_copied of
        Inr w \<Rightarrow> w | Inl err \<Rightarrow> ui_copied)"

definition two_done :: "memfs state" where
  "two_done =
     (case run_repos mem_sys [sdk_repo, ui_repo] demo_cleared_state of
        Inr st \<Rightarrow> st | Inl err \<Rightarrow> demo_cleared_state)"

text \<open>The documents the run on the example writes.\<close>

definition sdk_written_doc :: string where
  "sdk_written_doc =
     ''---'' @ [newline]
       @ ''custom_edit_url: https://github.com/org/sdk/edit/main/docs/devices.md'' @ [newline]
       @ ''---'' @ [newline] @ ''# Devices'' @ [newline]"

definition ui_written_doc :: string where
  "ui_written_doc =
     ''---'' @ [newline] @ ''title: UI'' @ [newline]
       @ ''custom_edit_url: https://github.com/org/ui/edit/main/README.md'' @ [newline]
       @ ''---'' @ [newline] @ ''# UI'' @ [newline]"

definition sdk_index_doc :: string where
  "sdk_index_doc =
     ''---'' @ [newline] @ ''custom_edit_url: https://github.com/org/sdk'' @ [newline]
       @ ''---'' @ [newline] @ ''# sdk'' @ [newline] @ [newline]
       @ ''Project documentation aggregated from '' @ [CHR 0x60] @ ''org/sdk'' @ [CHR 0x60] @ ''.''
       @ [newline]"

text \<open>
  The example sources with other content under the output root, left by an earlier run.
\<close>

definition stale_world :: memfs where
  "stale_world =
     \<lparr>mem_files =
        [(''projects/sdk/devices.md'', ''# Devices of an earlier run''),
         (''_sources/sdk/docs/devices.md'', ''# Devices''),
         (''_sources/sdk/docs/logo.png'', ''PNG''),
         (''_sources/sdk/README.md'', ''# SDK''),
         (''projects/removed/index.md'', ''# Removed''),
         (''_sources/ui/README.md'', null_url_doc),
         (''_sources/ui/docs/shot.png'', ''PNG''),
         (''_sources/ui/package.json'', ''{}'')],
      mem_dirs = [''projects/removed'', ''projects'']\<rparr>"

text \<open>A dedicated directory that holds a directory named \<^verbatim>\<open>index.md\<close>.\<close>

definition index_dir_world :: memfs where
  "index_dir_world =
     \<lparr>mem_files =
        [(''_sources/sdk/docs/index.md/notes.txt'', ''notes''),
         (''_sources/sdk/docs/other.md'', ''# Other'')],
      mem_dirs = []\<rparr>"

text \<open>
  A host on which writing \<^verbatim>\<open>projects/ui/README.md\<close> fails with \<open>ENOENT\<close>, as when
  the output directory is removed while the script runs.
\<close>

definition write_failing_sys :: "memfs sys" where
  "write_failing_sys =
     mem_sys\<lparr>writeFile :=
       (\<lambda>p c w. if p = ''projects/ui/README.md'' then Inl (FsError ENOENT) else mem_writeFile p c w)\<rparr>"

text \<open>
  A document whose metadata block is not valid YAML (a flow sequence that is never
  closed), and a host whose decoder throws on it, as the YAML parser of
  \<^verbatim>\<open>gray-matter\<close> does.
\<close>

definition bad_yaml_doc :: string where
  "bad_yaml_doc =
     ''---'' @ [newline] @ ''title: [draft'' @ [newline] @ ''---'' @ [newline] @ ''# Title''"

definition strict_sys :: "memfs sys" where
  "strict_sys =
     mem_sys\<lparr>matter :=
       (\<lambda>raw. if raw = bad_yaml_doc then Inl (OtherError ''YAMLException'') else Inr (decode raw))\<rparr>"

definition bad_yaml_world :: memfs where
  "bad_yaml_world =
     \<lparr>mem_files =
        [(''_sources/sdk/docs/devices.md'', ''# Devices''),
         (''_sources/ui/README.md'', bad_yaml_doc),
         (''_sources/ui/CHANGES.md'', ''# Changes'')],
      mem_dirs = []\<rparr>"

definition yaml_cleared :: memfs where
  "yaml_cleared =
     (case emptyDir strict_sys OUT_ROOT bad_yaml_world of Inr w \<Rightarrow> w | Inl err \<Rightarrow> bad_yaml_world)"

definition yaml_sdk_done :: "memfs state" where
  "yaml_sdk_done =
     (case run_repos strict_sys [sdk_repo] \<lparr>world = yaml_cleared, warnings = [], logs = []\<rparr> of
        Inr st \<Rightarrow> st | Inl err \<Rightarrow> \<lparr>world = yaml_cleared, warnings = [], logs = []\<rparr>)"

definition yaml_ui_copied :: memfs where
  "yaml_ui_copied =
     (case copy_docs strict_sys ui_repo ''_sources/ui'' ''projects/ui'' (world yaml_sdk_done) of
        Inr w \<Rightarrow> w | Inl err \<Rightarrow> world yaml_sdk_done)"

section \<open>Objects, sequencing and paths: basic facts\<close>

lemma map_of_obj_set: "map_of (obj_set obj k v) = (map_of obj)(k \<mapsto> v)"
  by (induction obj k v rule: obj_set.induct) auto

lemma obj_get_obj_set:
  "obj_get (obj_set obj k v) k' = (if k' = k then v else obj_get obj k')"
  by (simp add: obj_get_def map_of_obj_set)

lemma obj_set_same: "map_of obj k = Some v \<Longrightarrow> obj_set obj k v = obj"
  by (induction obj k v rule: obj_set.induct) (auto split: if_splits)

lemma obj_set_absent: "\<not> has_key obj k \<Longrightarrow> obj_set obj k v = obj @ [(k, v)]"
  by (induction obj k v rule: obj_set.induct) (auto simp: has_key_def)

lemma keys_obj_set:
  "map fst (obj_set obj k v) = (if has_key obj k then map fst obj else map fst obj @ [k])"
  by (induction obj k v rule: obj_set.induct) (auto simp: has_key_def)

lemma has_key_map_of: "has_key obj k \<longleftrightarrow> map_of obj k \<noteq> None"
  by (simp add: has_key_def map_of_eq_None_iff)

lemma absent_is_undefined: "\<not> has_key obj k \<Longrightarrow> obj_get obj k = JUndefined"
  by (simp add: has_key_map_of obj_get_def)

lemma merge_other_keys:
  "k \<noteq> ''custom_edit_url'' \<Longrightarrow> obj_get (merge_data fm custom) k = obj_get fm k"
  by (simp add: merge_data_def obj_get_obj_set)

lemma merge_keeps_value:
  assumes "\<not> nullish (obj_get fm ''custom_edit_url'')"
  shows "merge_data fm custom = fm"
proof -
  from assms obtain v where v: "map_of fm ''custom_edit_url'' = Some v"
    by (cases "map_of fm ''custom_edit_url''") (auto simp: obj_get_def nullish_def)
  with assms have "coalesce (obj_get fm ''custom_edit_url'') (JStr custom) = v"
    by (simp add: coalesce_def obj_get_def)
  with v show ?thesis
    by (simp add: merge_data_def obj_set_same)
qed

lemma merge_absent:
  assumes "\<not> has_key fm ''custom_edit_url''"
  shows "merge_data fm custom = fm @ [(''custom_edit_url'', JStr custom)]"
  using assms
  by (simp add: merge_data_def obj_set_absent absent_is_undefined coalesce_def nullish_def)

lemma merge_nullish:
  "nullish (obj_get fm ''custom_edit_url'') \<Longrightarrow>
     obj_get (merge_data fm custom) ''custom_edit_url'' = JStr custom"
  by (simp add: merge_data_def obj_get_obj_set coalesce_def)

lemma and_then_Inr [simp]: "and_then (Inr x) f = f x"
  by (simp add: and_then_def)

lemma and_then_Inl [simp]: "and_then (Inl e) f = Inl e"
  by (simp add: and_then_def)

lemma and_then_eq_Inr:
  "and_then m f = Inr y \<longleftrightarrow> (\<exists>x. m = Inr x \<and> f x = Inr y)"
  by (cases m) auto

lemma inject_file_eq:
  assumes "readFile sys (path_join sys out rel) w = Inr raw" and "matter sys raw = Inr fm"
  shows "inject_file sys r out rel w =
           and_then (stringify sys (trimStart (content fm) @ [newline])
                       (merge_data (data fm) (custom_url r rel)))
             (\<lambda>doc. writeFile sys (path_join sys out rel) doc w)"
  using assms by (simp add: inject_file_def Let_def)

lemma split_on_nonempty [simp]: "split_on c s \<noteq> []"
  by (induction s) (auto split: list.splits)

lemma split_on_append: "split_on c (a @ c # b) = split_on c a @ split_on c b"
  by (induction a) (auto split: list.splits)

lemma join_with_split_on: "join_with [c] (split_on c s) = s"
proof (induction s)
  case Nil
  then show ?case by simp
next
  case (Cons x xs)
  obtain t ts where sp: "split_on c xs = t # ts"
    by (cases "split_on c xs") auto
  with Cons show ?case
    by (cases ts) auto
qed

lemma normalize_segs_plain:
  "list_all plain_segment segs \<Longrightarrow> normalize_segs allow res segs = res @ segs"
  by (induction segs arbitrary: res) (auto simp: plain_segment_def)

lemma hd_split_on_sep: "split_on c (c # s) = [] # split_on c s"
  by simp

lemma split_on_empty_piece: "split_on c s = [[]] \<longleftrightarrow> s = []"
  by (cases s) (auto split: list.splits)

lemma last_split_on_sep: "s \<noteq> [] \<Longrightarrow> last s = c \<Longrightarrow> last (split_on c s) = []"
  by (induction s) (auto simp: split_on_empty_piece split: list.splits if_splits)

lemma plain_path_nonempty: "plain_path p \<Longrightarrow> p \<noteq> []"
  by (auto simp: plain_path_def plain_segment_def)

lemma plain_path_hd: "plain_path p \<Longrightarrow> hd p \<noteq> CHR ''/''"
  by (cases p) (auto simp: plain_path_def plain_segment_def)

lemma plain_path_last: "plain_path p \<Longrightarrow> last p \<noteq> CHR ''/''"
proof
  assume pl: "plain_path p" and l: "last p = CHR ''/''"
  from pl have ne: "p \<noteq> []" by (rule plain_path_nonempty)
  with l have "last (split_on CHR ''/'' p) = []"
    by (simp add: last_split_on_sep)
  moreover from pl have "plain_segment (last (split_on CHR ''/'' p))"
    by (simp add: plain_path_def list_all_iff)
  ultimately show False
    by (simp add: plain_segment_def)
qed

lemma posix_join_plain:
  assumes a: "plain_path a" and b: "plain_path b"
  shows "posix_join [a, b] = a @ ''/'' @ b"
proof -
  let ?p = "a @ CHR ''/'' # b"
  have ne: "a \<noteq> []" "b \<noteq> []"
    using a b by (simp_all add: plain_path_nonempty)
  have segs: "split_on CHR ''/'' ?p = split_on CHR ''/'' a @ split_on CHR ''/'' b"
    by (rule split_on_append)
  have all: "list_all plain_segment (split_on CHR ''/'' ?p)"
    using a b by (simp add: segs plain_path_def)
  have norm: "normalize_segs True [] (split_on CHR ''/'' ?p) = split_on CHR ''/'' ?p"
    using normalize_segs_plain [OF all, of True "[]"] by simp
  have q: "join_with ''/'' (normalize_segs True [] (split_on CHR ''/'' ?p)) = ?p"
    by (simp only: norm join_with_split_on)
  have h: "hd ?p \<noteq> CHR ''/''"
    using plain_path_hd [OF a] ne by simp
  have l: "last ?p \<noteq> CHR ''/''"
    using plain_path_last [OF b] ne by simp
  have "posix_normalize ?p = ?p"
    using q h l by (simp add: posix_normalize_def Let_def)
  then show ?thesis
    using ne by (simp add: posix_join_def)
qed

lemma no_backslash_after_replace: "backslash \<notin> set (replace_backslashes s)"
  by (auto simp: replace_backslashes_def backslash_def)

lemma replace_backslashes_id: "backslash \<notin> set s \<Longrightarrow> replace_backslashes s = s"
  by (induction s) (auto simp: replace_backslashes_def)

lemma no_backslash_literals:
  "backslash \<notin> set ''https://github.com/''" "backslash \<notin> set ''/edit/''" "backslash \<noteq> CHR ''/''"
  by (simp_all add: backslash_def)

section \<open>The run: basic facts\<close>

lemma process_repo_skip:
  assumes "short_name r = Some name" and "\<not> existsSync sys (srcDocs_of sys r) (world st)"
  shows "process_repo sys r st = Inr (st\<lparr>warnings := warnings st @ [skip_warning sys r]\<rparr>)"
  using assms by (simp add: process_repo_def Let_def)

lemma run_repos_append:
  "run_repos sys (xs @ ys) st = and_then (run_repos sys xs st) (\<lambda>st'. run_repos sys ys st')"
  by (induction xs arbitrary: st) (auto simp: and_then_def split: sum.splits)

lemma process_repo_error:
  assumes "short_name r = Some name" and "existsSync sys (srcDocs_of sys r) (world st)"
    and "copy_docs sys r (srcDocs_of sys r) (path_join sys OUT_ROOT name) (world st) = Inl err
         \<or> (\<exists>w1. copy_docs sys r (srcDocs_of sys r) (path_join sys OUT_ROOT name) (world st) = Inr w1
              \<and> (inject_custom_edit_url sys r (path_join sys OUT_ROOT name) w1 = Inl err
                  \<or> (\<exists>w2. inject_custom_edit_url sys r (path_join sys OUT_ROOT name) w1 = Inr w2
                       \<and> add_index sys r name (path_join sys OUT_ROOT name) w2 = Inl err)))"
  shows "process_repo sys r st = Inl err"
  using assms by (auto simp: process_repo_def Let_def)

lemma copy_error_dedicated:
  "docsDir r \<noteq> Some ''.'' \<Longrightarrow> copy sys srcDocs out w = Inl err \<Longrightarrow> copy_docs sys r srcDocs out w = Inl err"
  by (simp add: copy_docs_def)

lemma matter_error_aborts:
  "readFile sys (path_join sys out rel) w = Inr raw \<Longrightarrow> matter sys raw = Inl err
     \<Longrightarrow> inject_file sys r out rel w = Inl err"
  by (simp add: inject_file_def Let_def)

lemma mem_emptyDir_outside:
  assumes "filter (\<lambda>(p, c). \<not> under dir p) (mem_files w1)
             = filter (\<lambda>(p, c). \<not> under dir p) (mem_files w2)"
    and "filter (\<lambda>p. p \<noteq> dir \<and> \<not> under dir p) (mem_dirs w1)
           = filter (\<lambda>p. p \<noteq> dir \<and> \<not> under dir p) (mem_dirs w2)"
    and "is_file dir w1 = is_file dir w2"
  shows "mem_emptyDir dir w1 = mem_emptyDir dir w2"
  using assms by (simp add: mem_emptyDir_def)

section \<open>Paths that exist stay\<close>

lemma kp_ensureDir:
  "keeps_paths sys \<Longrightarrow> existsSync sys p w \<Longrightarrow> ensureDir sys d w = Inr w' \<Longrightarrow> existsSync sys p w'"
  unfolding keeps_paths_def by blast

lemma kp_copy:
  "keeps_paths sys \<Longrightarrow> existsSync sys p w \<Longrightarrow> copy sys s d w = Inr w' \<Longrightarrow> existsSync sys p w'"
  unfolding keeps_paths_def by blast

lemma kp_writeFile:
  "keeps_paths sys \<Longrightarrow> existsSync sys p w \<Longrightarrow> writeFile sys f c w = Inr w' \<Longrightarrow> existsSync sys p w'"
  unfolding keeps_paths_def by blast

lemma kp_written:
  "keeps_paths sys \<Longrightarrow> writeFile sys f c w = Inr w' \<Longrightarrow> existsSync sys f w'"
  unfolding keeps_paths_def by blast

lemma copy_markdownFiles_keeps:
  assumes kp: "keeps_paths sys"
  shows "existsSync sys p w \<Longrightarrow> copy_markdownFiles sys srcDocs out found w = Inr w'
           \<Longrightarrow> existsSync sys p w'"
proof (induction found arbitrary: w)
  case Nil
  then show ?case by simp
next
  case (Cons f rest)
  from Cons.prems(2) obtain w1 where
    c: "copy sys (path_join sys srcDocs f) (path_join sys out f) w = Inr w1"
    and r: "copy_markdownFiles sys srcDocs out rest w1 = Inr w'"
    by (auto simp: and_then_eq_Inr)
  from kp_copy [OF kp Cons.prems(1) c] r show ?case
    by (rule Cons.IH)
qed

lemma copy_docFiles_keeps:
  assumes kp: "keeps_paths sys"
  shows "existsSync sys p w \<Longrightarrow> copy_docFiles sys srcDocs out found w = Inr w'
           \<Longrightarrow> existsSync sys p w'"
proof (induction found arbitrary: w)
  case Nil
  then show ?case by simp
next
  case (Cons f rest)
  show ?case
  proof (cases "existsSync sys (path_join sys srcDocs f) w")
    case True
    with Cons.prems(2) obtain w1 w2 where
      e: "ensureDir sys (path_dirname sys (path_join sys out f)) w = Inr w1"
      and c: "copy sys (path_join sys srcDocs f) (path_join sys out f) w1 = Inr w2"
      and r: "copy_docFiles sys srcDocs out rest w2 = Inr w'"
      by (auto simp: and_then_eq_Inr Let_def)
    from kp_copy [OF kp kp_ensureDir [OF kp Cons.prems(1) e] c] r show ?thesis
      by (rule Cons.IH)
  next
    case False
    with Cons.prems(2) have "copy_docFiles sys srcDocs out rest w = Inr w'"
      by (simp add: Let_def)
    with Cons.prems(1) show ?thesis
      by (rule Cons.IH)
  qed
qed

lemma copy_docs_keeps:
  assumes kp: "keeps_paths sys" and ex: "existsSync sys p w"
    and run: "copy_docs sys r srcDocs out w = Inr w'"
  shows "existsSync sys p w'"
proof (cases "docsDir r = Some ''.''")
  case True
  with run obtain w1 markdownFiles w2 docFiles where
    e: "ensureDir sys out w = Inr w1"
    and m: "copy_markdownFiles sys srcDocs out markdownFiles w1 = Inr w2"
    and d: "copy_docFiles sys srcDocs out docFiles w2 = Inr w'"
    by (auto simp: copy_docs_def and_then_eq_Inr)
  from kp_ensureDir [OF kp ex e] have "existsSync sys p w1" .
  then have "existsSync sys p w2"
    using m by (rule copy_markdownFiles_keeps [OF kp])
  then show ?thesis
    using d by (rule copy_docFiles_keeps [OF kp])
next
  case False
  with run have "copy sys srcDocs out w = Inr w'"
    by (simp add: copy_docs_def)
  with kp ex show ?thesis
    by (rule kp_copy)
qed

lemma inject_file_keeps:
  assumes kp: "keeps_paths sys" and ex: "existsSync sys p w"
    and run: "inject_file sys r out rel w = Inr w'"
  shows "existsSync sys p w'"
proof -
  from run obtain doc where "writeFile sys (path_join sys out rel) doc w = Inr w'"
    by (auto simp: inject_file_def Let_def and_then_eq_Inr)
  with kp ex show ?thesis
    by (rule kp_writeFile)
qed

lemma inject_files_keeps:
  assumes kp: "keeps_paths sys"
  shows "existsSync sys p w \<Longrightarrow> inject_files sys r out found w = Inr w' \<Longrightarrow> existsSync sys p w'"
proof (induction found arbitrary: w)
  case Nil
  then show ?case by simp
next
  case (Cons rel rest)
  from Cons.prems(2) obtain w1 where
    i: "inject_file sys r out rel w = Inr w1" and r: "inject_files sys r out rest w1 = Inr w'"
    by (auto simp: and_then_eq_Inr)
  from inject_file_keeps [OF kp Cons.prems(1) i] r show ?case
    by (rule Cons.IH)
qed

lemma inject_custom_edit_url_keeps:
  assumes kp: "keeps_paths sys" and ex: "existsSync sys p w"
    and run: "inject_custom_edit_url sys r out w = Inr w'"
  shows "existsSync sys p w'"
proof -
  from run obtain found where "inject_files sys r out found w = Inr w'"
    by (auto simp: inject_custom_edit_url_def and_then_eq_Inr)
  with ex show ?thesis
    by (rule inject_files_keeps [OF kp])
qed

lemma add_index_keeps:
  assumes kp: "keeps_paths sys" and ex: "existsSync sys p w"
    and run: "add_index sys r name out w = Inr w'"
  shows "existsSync sys p w'"
proof (cases "hasIndex sys out w")
  case True
  with run ex show ?thesis
    by (simp add: add_index_def)
next
  case False
  with run obtain doc where "writeFile sys (path_join sys out ''index.md'') doc w = Inr w'"
    by (auto simp: add_index_def and_then_eq_Inr)
  with kp ex show ?thesis
    by (rule kp_writeFile)
qed

lemma add_index_hasIndex:
  assumes kp: "keeps_paths sys" and run: "add_index sys r name out w = Inr w'"
  shows "hasIndex sys out w'"
proof (cases "hasIndex sys out w")
  case True
  with run show ?thesis
    by (simp add: add_index_def)
next
  case False
  with run obtain doc where "writeFile sys (path_join sys out ''index.md'') doc w = Inr w'"
    by (auto simp: add_index_def and_then_eq_Inr)
  from kp_written [OF kp this] show ?thesis
    by (simp add: hasIndex_def indexCandidates_def)
qed

lemma hasIndex_keeps:
  assumes "hasIndex sys out w" and "\<And>p. existsSync sys p w \<Longrightarrow> existsSync sys p w'"
  shows "hasIndex sys out w'"
  using assms by (auto simp: hasIndex_def list_ex_iff)

lemma process_repo_keeps:
  assumes kp: "keeps_paths sys" and ex: "existsSync sys p (world st)"
    and run: "process_repo sys r st = Inr st'"
  shows "existsSync sys p (world st')"
proof -
  from run obtain name where name: "short_name r = Some name"
    by (cases "short_name r") (auto simp: process_repo_def Let_def)
  show ?thesis
  proof (cases "existsSync sys (srcDocs_of sys r) (world st)")
    case False
    with run name ex show ?thesis
      by (auto simp: process_repo_def Let_def)
  next
    case True
    with run name obtain w1 w2 w3 where
      c: "copy_docs sys r (srcDocs_of sys r) (path_join sys OUT_ROOT name) (world st) = Inr w1"
      and i: "inject_custom_edit_url sys r (path_join sys OUT_ROOT name) w1 = Inr w2"
      and a: "add_index sys r name (path_join sys OUT_ROOT name) w2 = Inr w3"
      and s: "st' = st\<lparr>world := w3\<rparr>"
      by (auto simp: process_repo_def Let_def and_then_eq_Inr)
    from copy_docs_keeps [OF kp ex c] have "existsSync sys p w1" .
    from inject_custom_edit_url_keeps [OF kp this i] have "existsSync sys p w2" .
    from add_index_keeps [OF kp this a] s show ?thesis
      by simp
  qed
qed

lemma process_repo_warnings:
  assumes "process_repo sys r st = Inr st'"
  shows "set (warnings st) \<subseteq> set (warnings st')"
proof -
  from assms obtain name where name: "short_name r = Some name"
    by (cases "short_name r") (auto simp: process_repo_def Let_def)
  with assms show ?thesis
    by (cases "existsSync sys (srcDocs_of sys r) (world st)")
      (auto simp: process_repo_def Let_def and_then_eq_Inr)
qed

lemma process_repo_index:
  assumes kp: "keeps_paths sys" and run: "process_repo sys r st = Inr st'"
  shows "\<exists>name. short_name r = Some name
           \<and> (skip_warning sys r \<in> set (warnings st')
                \<or> hasIndex sys (path_join sys OUT_ROOT name) (world st'))"
proof -
  from run obtain name where name: "short_name r = Some name"
    by (cases "short_name r") (auto simp: process_repo_def Let_def)
  show ?thesis
  proof (cases "existsSync sys (srcDocs_of sys r) (world st)")
    case False
    with run name show ?thesis
      by (auto simp: process_repo_def Let_def)
  next
    case True
    with run name obtain w2 w3 where
      a: "add_index sys r name (path_join sys OUT_ROOT name) w2 = Inr w3"
      and s: "st' = st\<lparr>world := w3\<rparr>"
      by (auto simp: process_repo_def Let_def and_then_eq_Inr)
    from add_index_hasIndex [OF kp a] s name show ?thesis
      by simp
  qed
qed

lemma run_repos_keeps:
  assumes kp: "keeps_paths sys"
  shows "existsSync sys p (world st) \<Longrightarrow> run_repos sys repos st = Inr st'
           \<Longrightarrow> existsSync sys p (world st')"
proof (induction repos arbitrary: st)
  case Nil
  then show ?case by simp
next
  case (Cons r rest)
  from Cons.prems(2) obtain st1 where
    p: "process_repo sys r st = Inr st1" and rr: "run_repos sys rest st1 = Inr st'"
    by (auto simp: and_then_eq_Inr)
  from process_repo_keeps [OF kp Cons.prems(1) p] rr show ?case
    by (rule Cons.IH)
qed

lemma run_repos_warnings:
  "run_repos sys repos st = Inr st' \<Longrightarrow> set (warnings st) \<subseteq> set (warnings st')"
proof (induction repos arbitrary: st)
  case Nil
  then show ?case by simp
next
  case (Cons r rest)
  from Cons.prems obtain st1 where
    p: "process_repo sys r st = Inr st1" and rr: "run_repos sys rest st1 = Inr st'"
    by (auto simp: and_then_eq_Inr)
  from process_repo_warnings [OF p] Cons.IH [OF rr] show ?case
    by blast
qed

lemma run_repos_index:
  assumes kp: "keeps_paths sys"
  shows "run_repos sys repos st = Inr st' \<Longrightarrow> r \<in> set repos
           \<Longrightarrow> \<exists>name. short_name r = Some name
                 \<and> (skip_warning sys r \<in> set (warnings st')
                      \<or> hasIndex sys (path_join sys OUT_ROOT name) (world st'))"
proof (induction repos arbitrary: st)
  case Nil
  then show ?case by simp
next
  case (Cons x rest)
  from Cons.prems(1) obtain st1 where
    p: "process_repo sys x st = Inr st1" and rr: "run_repos sys rest st1 = Inr st'"
    by (auto simp: and_then_eq_Inr)
  show ?case
  proof (cases "r \<in> set rest")
    case True
    with Cons.IH [OF rr] show ?thesis .
  next
    case False
    with Cons.prems(2) have rx: "r = x" by simp
    from process_repo_index [OF kp p] rx obtain name where
      name: "short_name r = Some name"
      and here: "skip_warning sys r \<in> set (warnings st1)
                   \<or> hasIndex sys (path_join sys OUT_ROOT name) (world st1)"
      by blast
    from here show ?thesis
    proof
      assume "skip_warning sys r \<in> set (warnings st1)"
      with run_repos_warnings [OF rr] name show ?thesis
        by blast
    next
      assume "hasIndex sys (path_join sys OUT_ROOT name) (world st1)"
      then have "hasIndex sys (path_join sys OUT_ROOT name) (world st')"
        using run_repos_keeps [OF kp _ rr] by (rule hasIndex_keeps)
      with name show ?thesis
        by blast
    qed
  qed
qed

lemma split_on_absent: "c \<notin> set s \<Longrightarrow> split_on c s = [s]"
  by (induction s) auto

lemma first_line: "c \<notin> set a \<Longrightarrow> hd (split_on c (a @ c # b)) = a"
  by (simp add: split_on_append split_on_absent)

lemma index_body_heading:
  assumes "newline \<notin> set name"
  shows "hd (split_on newline (index_body r name)) = ''# '' @ name"
proof -
  have "newline \<notin> set (''# '' @ name)"
    using assms by (simp add: newline_def)
  from first_line [OF this] show ?thesis
    by (simp add: index_body_def)
qed

lemma index_body_names_repo: "\<exists>pre post. index_body r name = pre @ repo r @ post"
  unfolding index_body_def by (metis append.assoc)

section \<open>The in-memory host keeps paths\<close>

lemma mem_exists_names: "mem_exists p w \<longleftrightarrow> (\<exists>q \<in> mem_names w. q = p \<or> under p q)"
  unfolding mem_exists_def is_file_def list_ex_iff mem_names_def set_map by blast

lemma mem_exists_mono:
  assumes "mem_names w \<subseteq> mem_names w'" and "mem_exists p w"
  shows "mem_exists p w'"
  using assms unfolding mem_exists_names by blast

lemma put_file_keys: "fst ` set (put_file fs p c) = insert p (fst ` set fs)"
  by (induction fs p c rule: put_file.induct) auto

lemma put_files_keys: "fst ` set fs \<subseteq> fst ` set (put_files fs others)"
proof (induction others arbitrary: fs)
  case Nil
  then show ?case by simp
next
  case (Cons x xs)
  obtain p c where x: "x = (p, c)" by (cases x)
  have "fst ` set fs \<subseteq> fst ` set (put_file fs p c)"
    unfolding put_file_keys by blast
  also have "\<dots> \<subseteq> fst ` set (put_files (put_file fs p c) xs)"
    by (rule Cons.IH)
  finally show ?case
    by (simp add: x)
qed

lemma mem_ensureDir_names:
  assumes "mem_ensureDir d w = Inr w'"
  shows "mem_names w \<subseteq> mem_names w'"
proof -
  from assms have "w' = w \<or> w' = w\<lparr>mem_dirs := mem_dirs w @ [d]\<rparr>"
    by (auto simp: mem_ensureDir_def split: if_splits)
  then show ?thesis
    by (auto simp: mem_names_def)
qed

lemma mem_writeFile_names:
  assumes "mem_writeFile f c w = Inr w'"
  shows "mem_names w' = insert f (mem_names w)"
proof -
  from assms have "w' = w\<lparr>mem_files := put_file (mem_files w) f c\<rparr>"
    by (auto simp: mem_writeFile_def split: if_splits)
  then show ?thesis
    by (simp add: mem_names_def put_file_keys)
qed

lemma mem_copy_names:
  assumes "mem_copy s d w = Inr w'"
  shows "mem_names w \<subseteq> mem_names w'"
proof (cases "map_of (mem_files w) s")
  case (Some c)
  with assms have "w' = w\<lparr>mem_files := put_file (mem_files w) d c\<rparr>"
    by (simp add: mem_copy_def)
  then show ?thesis
    by (auto simp: mem_names_def put_file_keys)
next
  case None
  with assms obtain extra more_dirs where
    f: "mem_files w' = put_files (mem_files w) extra" and d: "mem_dirs w' = mem_dirs w @ more_dirs"
    by (auto simp: mem_copy_def split: if_splits)
  have "fst ` set (mem_files w) \<subseteq> fst ` set (mem_files w')"
    unfolding f by (rule put_files_keys)
  moreover have "set (mem_dirs w) \<subseteq> set (mem_dirs w')"
    unfolding d by simp
  ultimately show ?thesis
    unfolding mem_names_def by blast
qed

lemma mem_ensureDir_keeps:
  "mem_exists p w \<Longrightarrow> mem_ensureDir d w = Inr w' \<Longrightarrow> mem_exists p w'"
  by (rule mem_exists_mono [OF mem_ensureDir_names])

lemma mem_copy_keeps:
  "mem_exists p w \<Longrightarrow> mem_copy s d w = Inr w' \<Longrightarrow> mem_exists p w'"
  by (rule mem_exists_mono [OF mem_copy_names])

lemma mem_writeFile_keeps:
  assumes "mem_exists p w" and "mem_writeFile f c w = Inr w'"
  shows "mem_exists p w'"
proof -
  have "mem_names w \<subseteq> mem_names w'"
    unfolding mem_writeFile_names [OF assms(2)] by blast
  then show ?thesis
    using assms(1) by (rule mem_exists_mono)
qed

lemma mem_writeFile_written:
  assumes "mem_writeFile f c w = Inr w'"
  shows "mem_exists f w'"
proof -
  have "f \<in> mem_names w'"
    unfolding mem_writeFile_names [OF assms] by simp
  then show ?thesis
    unfolding mem_exists_names by blast
qed

lemma mem_sys_fields:
  "existsSync mem_sys = mem_exists" "ensureDir mem_sys = mem_ensureDir"
  "copy mem_sys = mem_copy" "writeFile mem_sys = mem_writeFile"
  by (simp_all add: mem_sys_def)

lemma mem_keeps_paths: "keeps_paths mem_sys"
  unfolding keeps_paths_def mem_sys_fields
proof (intro conjI allI impI)
  fix p d w w'
  assume "mem_exists p w \<and> mem_ensureDir d w = Inr w'"
  then show "mem_exists p w'"
    using mem_ensureDir_keeps by blast
next
  fix p s d w w'
  assume "mem_exists p w \<and> mem_copy s d w = Inr w'"
  then show "mem_exists p w'"
    using mem_copy_keeps by blast
next
  fix p f c w w'
  assume "mem_exists p w \<and> mem_writeFile f c w = Inr w'"
  then show "mem_exists p w'"
    using mem_writeFile_keeps by blast
next
  fix f c w w'
  assume "mem_writeFile f c w = Inr w'"
  then show "mem_exists f w'"
    by (rule mem_writeFile_written)
qed

section \<open>What the patterns select\<close>

lemma ends_with_iff: "ends_with ending s \<longleftrightarrow> (\<exists>pre. s = pre @ ending)"
proof
  assume "ends_with ending s"
  then have "s = take (length s - length ending) s @ ending"
    by (metis append_take_drop_id ends_with_def)
  then show "\<exists>pre. s = pre @ ending" ..
next
  assume "\<exists>pre. s = pre @ ending"
  then show "ends_with ending s"
    by (auto simp: ends_with_def)
qed

lemma ends_with_append: "ends_with ending (pre @ ending)"
  by (auto simp: ends_with_iff)

lemma wild_match_literal: "CHR ''*'' \<notin> set lit \<Longrightarrow> wild_match lit s \<longleftrightarrow> s = lit"
  by (induction lit s rule: wild_match.induct) auto

lemma wild_match_star_suffix:
  assumes "CHR ''*'' \<notin> set lit"
  shows "wild_match (CHR ''*'' # lit) s \<Longrightarrow> \<exists>pre. s = pre @ lit"
proof (induction s)
  case Nil
  then show ?case
    using assms by (simp add: wild_match_literal)
next
  case (Cons c cs)
  from Cons.prems have "wild_match lit (c # cs) \<or> wild_match (CHR ''*'' # lit) cs"
    by simp
  then show ?case
  proof
    assume "wild_match lit (c # cs)"
    with assms have "c # cs = lit"
      by (simp add: wild_match_literal)
    then show ?thesis
      by simp
  next
    assume "wild_match (CHR ''*'' # lit) cs"
    from Cons.IH [OF this] obtain pre where "cs = pre @ lit" ..
    then have "c # cs = (c # pre) @ lit"
      by simp
    then show ?thesis ..
  qed
qed

lemma name_match_suffix:
  assumes "CHR ''*'' \<notin> set lit" and "name_match (CHR ''*'' # lit) n"
  shows "ends_with lit n"
proof -
  from assms(2) have "wild_match (CHR ''*'' # lit) n"
    by (auto simp: name_match_def split: if_splits)
  from wild_match_star_suffix [OF assms(1) this] show ?thesis
    by (auto simp: ends_with_append)
qed

lemma last_piece_suffix: "\<exists>pre. s = pre @ last (split_on c s)"
proof (induction s)
  case Nil
  then show ?case by simp
next
  case (Cons x xs)
  from Cons.IH obtain pre where pre: "xs = pre @ last (split_on c xs)" ..
  obtain t ts where sp: "split_on c xs = t # ts"
    by (cases "split_on c xs") auto
  show ?case
  proof (cases "x = c")
    case True
    then have "last (split_on c (x # xs)) = last (split_on c xs)"
      by (simp add: sp)
    with pre have "x # xs = (x # pre) @ last (split_on c (x # xs))"
      by simp
    then show ?thesis ..
  next
    case False
    show ?thesis
    proof (cases ts)
      case Nil
      have "t = xs"
        using join_with_split_on [of c xs] by (simp add: sp Nil)
      with False sp Nil have "x # xs = [] @ last (split_on c (x # xs))"
        by simp
      then show ?thesis ..
    next
      case (Cons u us)
      with False sp have "last (split_on c (x # xs)) = last (split_on c xs)"
        by simp
      with pre have "x # xs = (x # pre) @ last (split_on c (x # xs))"
        by simp
      then show ?thesis ..
    qed
  qed
qed

lemma ends_with_last_piece:
  assumes "ends_with ending (last (split_on c s))"
  shows "ends_with ending s"
proof -
  obtain pre where s: "s = pre @ last (split_on c s)"
    using last_piece_suffix by blast
  from assms obtain pre2 where "last (split_on c s) = pre2 @ ending"
    by (auto simp: ends_with_iff)
  with s have "s = (pre @ pre2) @ ending"
    by simp
  then show ?thesis
    unfolding ends_with_iff ..
qed

lemma segs_match_single:
  assumes "p \<noteq> ''**''"
  shows "segs_match [p] ns \<longleftrightarrow> (\<exists>n. ns = [n] \<and> name_match p n)"
  using assms by (cases ns) auto

lemma segs_match_globstar_last:
  assumes "p \<noteq> ''**''"
  shows "segs_match [''**'', p] ns \<Longrightarrow> ns \<noteq> [] \<and> name_match p (last ns)"
proof (induction ns)
  case Nil
  with assms show ?case by simp
next
  case (Cons n ns)
  from Cons.prems have "segs_match [p] (n # ns) \<or> segs_match [''**'', p] ns"
    by (auto split: if_splits)
  then show ?case
  proof
    assume "segs_match [p] (n # ns)"
    with assms show ?thesis
      by (simp add: segs_match_single)
  next
    assume "segs_match [''**'', p] ns"
    from Cons.IH [OF this] show ?thesis
      by simp
  qed
qed

lemma split_on_no_sep: "split_on c s = [t] \<Longrightarrow> c \<notin> set s"
  by (induction s arbitrary: t) (auto split: if_splits list.splits)

lemma top_level_markdown:
  assumes "glob_match ''*.md'' f \<or> glob_match ''*.mdx'' f"
  shows "markdown_family f \<and> CHR ''/'' \<notin> set f"
proof -
  have pats: "split_on CHR ''/'' ''*.md'' = [''*.md'']" "split_on CHR ''/'' ''*.mdx'' = [''*.mdx'']"
    by simp_all
  from assms obtain n where n: "split_on CHR ''/'' f = [n]"
    and m: "name_match ''*.md'' n \<or> name_match ''*.mdx'' n"
    by (auto simp: glob_match_def pats segs_match_single)
  have "n = f"
    using join_with_split_on [of "CHR ''/''" f] n by simp
  moreover from m have "ends_with ''.md'' n \<or> ends_with ''.mdx'' n"
    using name_match_suffix [of "''.md''" n] name_match_suffix [of "''.mdx''" n] by auto
  ultimately show ?thesis
    using split_on_no_sep [OF n] by (simp add: markdown_family_def)
qed

lemma nested_markdown:
  assumes "glob_match ''**/*.md'' f \<or> glob_match ''**/*.mdx'' f"
  shows "markdown_family f"
proof -
  have pats: "split_on CHR ''/'' ''**/*.md'' = [''**'', ''*.md'']"
    "split_on CHR ''/'' ''**/*.mdx'' = [''**'', ''*.mdx'']"
    by simp_all
  from assms have "name_match ''*.md'' (last (split_on CHR ''/'' f))
      \<or> name_match ''*.mdx'' (last (split_on CHR ''/'' f))"
    using segs_match_globstar_last [of "''*.md''" "split_on CHR ''/'' f"]
      segs_match_globstar_last [of "''*.mdx''" "split_on CHR ''/'' f"]
    by (auto simp: glob_match_def pats)
  then have "ends_with ''.md'' (last (split_on CHR ''/'' f))
      \<or> ends_with ''.mdx'' (last (split_on CHR ''/'' f))"
    using name_match_suffix [of "''.md''"] name_match_suffix [of "''.mdx''"] by auto
  then show ?thesis
    using ends_with_last_piece by (auto simp: markdown_family_def)
qed

lemma globby_results:
  assumes "globby sys patterns cwd w = Inr found" and "f \<in> set found"
  shows "\<exists>p \<in> set patterns. glob_match p f"
  using assms by (auto simp: globby_def and_then_eq_Inr)

section \<open>The loops stop at the first error\<close>

lemma and_then_assoc:
  "and_then (and_then m f) g = and_then m (\<lambda>x. and_then (f x) g)"
  by (cases m) simp_all

lemma copy_markdownFiles_append:
  "copy_markdownFiles sys srcDocs out (xs @ ys) w =
     and_then (copy_markdownFiles sys srcDocs out xs w)
       (\<lambda>w1. copy_markdownFiles sys srcDocs out ys w1)"
  by (induction xs arbitrary: w) (auto simp: and_then_def split: sum.splits)

lemma copy_docFiles_append:
  "copy_docFiles sys srcDocs out (xs @ ys) w =
     and_then (copy_docFiles sys srcDocs out xs w)
       (\<lambda>w1. copy_docFiles sys srcDocs out ys w1)"
  by (induction xs arbitrary: w) (auto simp: and_then_def Let_def split: sum.splits)

lemma inject_files_append:
  "inject_files sys r out (xs @ ys) w =
     and_then (inject_files sys r out xs w) (\<lambda>w1. inject_files sys r out ys w1)"
  by (induction xs arbitrary: w) (auto simp: and_then_def split: sum.splits)

lemma globby_walk_error: "walk sys cwd w = Inl err \<Longrightarrow> globby sys patterns cwd w = Inl err"
  by (simp add: globby_def)

lemma inject_file_error:
  assumes "readFile sys (path_join sys out f) w = Inl err
     \<or> (\<exists>raw. readFile sys (path_join sys out f) w = Inr raw
          \<and> (matter sys raw = Inl err
              \<or> (\<exists>fm. matter sys raw = Inr fm
                   \<and> (stringify sys (trimStart (content fm) @ [newline])
                          (merge_data (data fm) (custom_url r f)) = Inl err
                       \<or> (\<exists>doc. stringify sys (trimStart (content fm) @ [newline])
                                   (merge_data (data fm) (custom_url r f)) = Inr doc
                            \<and> writeFile sys (path_join sys out f) doc w = Inl err)))))"
  shows "inject_file sys r out f w = Inl err"
  using assms by (auto simp: inject_file_def Let_def)

lemma inject_error_aborts:
  assumes "emptyDir sys OUT_ROOT w = Inr w0"
    and "run_repos sys before \<lparr>world = w0, warnings = [], logs = []\<rparr> = Inr st"
    and "short_name r = Some name"
    and "existsSync sys (srcDocs_of sys r) (world st)"
    and "copy_docs sys r (srcDocs_of sys r) (path_join sys OUT_ROOT name) (world st) = Inr w1"
    and "globby sys [''**/*.md'', ''**/*.mdx''] (path_join sys OUT_ROOT name) w1 = Inr (rewritten @ rel # later)"
    and "inject_files sys r (path_join sys OUT_ROOT name) rewritten w1 = Inr w2"
    and "inject_file sys r (path_join sys OUT_ROOT name) rel w2 = Inl err"
  shows "run_with sys (before @ r # rest) w = Inl err"
proof -
  have "inject_files sys r (path_join sys OUT_ROOT name) (rewritten @ rel # later) w1 = Inl err"
    using assms(7,8) by (simp add: inject_files_append)
  then have "inject_custom_edit_url sys r (path_join sys OUT_ROOT name) w1 = Inl err"
    using assms(6) by (simp add: inject_custom_edit_url_def)
  then have "process_repo sys r st = Inl err"
    using assms(3,4,5) by (simp add: process_repo_def Let_def)
  then have "run_repos sys (before @ r # rest) \<lparr>world = w0, warnings = [], logs = []\<rparr> = Inl err"
    using assms(2) by (simp add: run_repos_append)
  then show ?thesis
    using assms(1) by (simp add: run_with_def)
qed

section \<open>A repo that is skipped\<close>

lemma process_repo_reroute:
  "process_repo sys r (st\<lparr>warnings := ws\<rparr>) =
     (case process_repo sys r st of
        Inl e \<Rightarrow> Inl e
      | Inr st' \<Rightarrow> Inr (st'\<lparr>warnings := ws @ drop (length (warnings st)) (warnings st')\<rparr>))"
proof (cases "short_name r")
  case None
  then show ?thesis by (simp add: process_repo_def Let_def)
next
  case (Some name)
  show ?thesis
  proof (cases "existsSync sys (srcDocs_of sys r) (world st)")
    case False
    with Some show ?thesis by (simp add: process_repo_def Let_def)
  next
    case True
    with Some show ?thesis
      by (simp add: process_repo_def Let_def and_then_def split: sum.splits)
  qed
qed

lemma process_repo_appends:
  assumes "process_repo sys r st = Inr st'"
  shows "warnings st' = warnings st @ drop (length (warnings st)) (warnings st')"
proof -
  from assms obtain name where name: "short_name r = Some name"
    by (cases "short_name r") (auto simp: process_repo_def Let_def)
  with assms show ?thesis
    by (cases "existsSync sys (srcDocs_of sys r) (world st)")
      (auto simp: process_repo_def Let_def and_then_eq_Inr)
qed

lemma run_repos_reroute:
  "run_repos sys rs (st\<lparr>warnings := ws\<rparr>) =
     (case run_repos sys rs st of
        Inl e \<Rightarrow> Inl e
      | Inr st' \<Rightarrow> Inr (st'\<lparr>warnings := ws @ drop (length (warnings st)) (warnings st')\<rparr>))
   \<and> (\<forall>st'. run_repos sys rs st = Inr st' \<longrightarrow>
         warnings st' = warnings st @ drop (length (warnings st)) (warnings st'))"
proof (induction rs arbitrary: st ws)
  case Nil
  then show ?case by simp
next
  case (Cons r rs)
  show ?case
  proof (cases "process_repo sys r st")
    case (Inl e)
    then show ?thesis by (simp add: process_repo_reroute)
  next
    case (Inr st1)
    let ?d1 = "drop (length (warnings st)) (warnings st1)"
    have w1: "warnings st1 = warnings st @ ?d1"
      using process_repo_appends [OF Inr] .
    have step: "process_repo sys r (st\<lparr>warnings := ws\<rparr>) = Inr (st1\<lparr>warnings := ws @ ?d1\<rparr>)"
      by (simp add: process_repo_reroute Inr)
    show ?thesis
    proof (cases "run_repos sys rs st1")
      case (Inl e)
      with Inr step Cons.IH [where st = st1 and ws = "ws @ ?d1"] show ?thesis by simp
    next
      case (Inr st2)
      let ?d2 = "drop (length (warnings st1)) (warnings st2)"
      from Cons.IH [where st = st1 and ws = "ws @ ?d1"] Inr
      have w2: "warnings st2 = warnings st1 @ ?d2"
        and re: "run_repos sys rs (st1\<lparr>warnings := ws @ ?d1\<rparr>) = Inr (st2\<lparr>warnings := (ws @ ?d1) @ ?d2\<rparr>)"
        by simp_all
      have len: "length (warnings st) \<le> length (warnings st1)"
        using w1 by (metis le_add1 length_append)
      have whole: "warnings st2 = warnings st @ (?d1 @ ?d2)"
        using w1 w2 by (metis append.assoc)
      then have dr: "drop (length (warnings st)) (warnings st2) = ?d1 @ ?d2"
        by (metis append_eq_conv_conj)
      have run: "run_repos sys (r # rs) (st\<lparr>warnings := ws\<rparr>)
          = Inr (st2\<lparr>warnings := ws @ drop (length (warnings st)) (warnings st2)\<rparr>)"
        using step re by (simp add: dr)
      have orig: "run_repos sys (r # rs) st = Inr st2"
        using \<open>process_repo sys r st = Inr st1\<close> Inr by simp
      have app: "warnings st2 = warnings st @ drop (length (warnings st)) (warnings st2)"
        using whole dr by simp
      show ?thesis
        unfolding orig run using app by simp
    qed
  qed
qed

section \<open>The index that is written\<close>

lemma map_of_put_file: "map_of (put_file fs p c) p = Some c"
  by (induction fs p c rule: put_file.induct) auto

lemma mem_reads_back: "reads_back mem_sys"
  unfolding reads_back_def
  by (auto simp: mem_sys_def mem_writeFile_def mem_readFile_def map_of_put_file split: if_splits)

lemma process_repo_synthesizes:
  assumes rb: "reads_back sys"
    and "short_name r = Some name"
    and "existsSync sys (srcDocs_of sys r) (world st1)"
    and "copy_docs sys r (srcDocs_of sys r) (path_join sys OUT_ROOT name) (world st1) = Inr w1"
    and "inject_custom_edit_url sys r (path_join sys OUT_ROOT name) w1 = Inr w2"
    and "\<not> hasIndex sys (path_join sys OUT_ROOT name) w2"
    and "process_repo sys r st1 = Inr st2"
  shows "\<exists>doc. stringify sys (index_body r name) (index_data r) = Inr doc
           \<and> writeFile sys (path_join sys (path_join sys OUT_ROOT name) ''index.md'') doc w2
                = Inr (world st2)
           \<and> readFile sys (path_join sys (path_join sys OUT_ROOT name) ''index.md'') (world st2)
                = Inr doc"
proof -
  from assms(2-7) obtain doc w3 where
    s: "stringify sys (index_body r name) (index_data r) = Inr doc"
    and wr: "writeFile sys (path_join sys (path_join sys OUT_ROOT name) ''index.md'') doc w2 = Inr w3"
    and st: "st2 = st1\<lparr>world := w3\<rparr>"
    by (auto simp: process_repo_def Let_def add_index_def and_then_eq_Inr)
  from rb wr have "readFile sys (path_join sys (path_join sys OUT_ROOT name) ''index.md'') w3 = Inr doc"
    unfolding reads_back_def by blast
  with s wr st show ?thesis
    by simp
qed

lemma process_repo_has_index:
  assumes "short_name r = Some name"
    and "existsSync sys (srcDocs_of sys r) (world st1)"
    and "copy_docs sys r (srcDocs_of sys r) (path_join sys OUT_ROOT name) (world st1) = Inr w1"
    and "inject_custom_edit_url sys r (path_join sys OUT_ROOT name) w1 = Inr w2"
    and "hasIndex sys (path_join sys OUT_ROOT name) w2"
  shows "process_repo sys r st1 = Inr (st1\<lparr>world := w2\<rparr>)"
  using assms by (simp add: process_repo_def Let_def add_index_def)

section \<open>Files in documentation directories\<close>

lemma wild_match_star: "wild_match ''*'' s"
  by (induction s) simp_all

lemma name_match_star: "seg_visible n \<Longrightarrow> name_match ''*'' n"
  by (simp add: name_match_def seg_visible_def wild_match_star)

lemma segs_match_globstar_star:
  "ms \<noteq> [] \<Longrightarrow> list_all seg_visible ms \<Longrightarrow> segs_match [''**'', ''*''] ms"
proof (induction ms)
  case Nil
  then show ?case by simp
next
  case (Cons n ms)
  show ?case
  proof (cases ms)
    case Nil
    with Cons.prems show ?thesis
      by (simp add: name_match_star)
  next
    case (Cons m ms')
    with Cons.IH Cons.prems have "segs_match [''**'', ''*''] ms"
      by simp
    with Cons.prems show ?thesis
      by (simp add: seg_visible_def)
  qed
qed

lemma in_doc_dir_selected:
  assumes "in_doc_dir f"
  shows "\<exists>p \<in> set docPatterns. glob_match p f"
proof -
  from assms obtain d n ns where sp: "split_on CHR ''/'' f = d # n # ns"
    and d: "d = ''docs'' \<or> d = ''documentation''" and vis: "list_all seg_visible (n # ns)"
    by (auto simp: in_doc_dir_def split: list.splits)
  have rest: "segs_match [''**'', ''*''] (n # ns)"
    using vis by (intro segs_match_globstar_star) simp_all
  have p1: "split_on CHR ''/'' ''docs/**/*'' = [''docs'', ''**'', ''*'']"
    by simp
  have p2: "split_on CHR ''/'' ''documentation/**/*'' = [''documentation'', ''**'', ''*'']"
    by simp
  have n1: "name_match ''docs'' ''docs''" by code_simp
  have n2: "name_match ''documentation'' ''documentation''" by code_simp
  from d show ?thesis
  proof
    assume "d = ''docs''"
    then have "glob_match ''docs/**/*'' f"
      unfolding glob_match_def p1 sp using rest n1 by simp
    then show ?thesis by (simp add: docPatterns_def)
  next
    assume "d = ''documentation''"
    then have "glob_match ''documentation/**/*'' f"
      unfolding glob_match_def p2 sp using rest n2 by simp
    then show ?thesis by (simp add: docPatterns_def)
  qed
qed

lemma first_pass_markdown:
  assumes "\<exists>p \<in> set [''*.md'', ''*.mdx'']. glob_match p f"
  shows "markdown_family f \<and> CHR ''/'' \<notin> set f"
  using assms top_level_markdown [of f] by simp

lemma rewrite_pass_markdown:
  assumes "\<exists>p \<in> set [''**/*.md'', ''**/*.mdx'']. glob_match p f"
  shows "markdown_family f"
  using assms nested_markdown [of f] by simp

section \<open>The in-memory host outside the output root\<close>

lemma under_append: "under root a \<Longrightarrow> under root (a @ s)"
  by (auto simp: under_def)

lemma not_under_self: "\<not> under root root"
  by (simp add: under_def)

lemma outside_put_file:
  "under root p \<Longrightarrow>
     filter (\<lambda>(q, c). \<not> under root q) (put_file fs p c) = filter (\<lambda>(q, c). \<not> under root q) fs"
  by (induction fs p c rule: put_file.induct) auto

lemma outside_put_files:
  "list_all (\<lambda>(p, c). under root p) others \<Longrightarrow>
     filter (\<lambda>(q, c). \<not> under root q) (put_files fs others) = filter (\<lambda>(q, c). \<not> under root q) fs"
proof (induction others arbitrary: fs)
  case Nil
  then show ?case by simp
next
  case (Cons x xs)
  obtain p c where x: "x = (p, c)" by (cases x)
  with Cons.prems have "under root p" and "list_all (\<lambda>(p, c). under root p) xs"
    by simp_all
  then show ?case
    using Cons.IH [of "put_file fs p c"] by (simp add: x outside_put_file)
qed

lemma outside_ensureDir:
  assumes "under root d" and "mem_ensureDir d w = Inr w'"
  shows "outside root w' = outside root w"
proof -
  from assms(2) have "w' = w \<or> w' = w\<lparr>mem_dirs := mem_dirs w @ [d]\<rparr>"
    by (auto simp: mem_ensureDir_def split: if_splits)
  with assms(1) show ?thesis
    by (auto simp: outside_def)
qed

lemma outside_writeFile:
  assumes "under root p" and "mem_writeFile p c w = Inr w'"
  shows "outside root w' = outside root w"
proof -
  from assms(2) have "w' = w\<lparr>mem_files := put_file (mem_files w) p c\<rparr>"
    by (auto simp: mem_writeFile_def split: if_splits)
  with assms(1) show ?thesis
    by (simp add: outside_def outside_put_file)
qed

lemma outside_copy:
  assumes dst: "under root dst" and cp: "mem_copy src dst w = Inr w'"
  shows "outside root w' = outside root w"
proof (cases "map_of (mem_files w) src")
  case (Some c)
  with cp have "w' = w\<lparr>mem_files := put_file (mem_files w) dst c\<rparr>"
    by (simp add: mem_copy_def)
  with dst show ?thesis
    by (simp add: outside_def outside_put_file)
next
  case None
  let ?new = "map (\<lambda>(p, c). (rebase src dst p, c)) (filter (\<lambda>(p, c). under src p) (mem_files w))"
  from None cp have f: "mem_files w' = put_files (mem_files w) ?new"
    and d: "mem_dirs w' = mem_dirs w @ [dst] @ map (rebase src dst) (filter (under src) (mem_dirs w))"
    by (auto simp: mem_copy_def split: if_splits)
  have reb: "under root (rebase src dst p)" for p
    using dst by (simp add: rebase_def under_append)
  have "list_all (\<lambda>(p, c). under root p) ?new"
    using reb by (auto simp: list_all_iff)
  then have files: "filter (\<lambda>(q, c). \<not> under root q) (mem_files w')
      = filter (\<lambda>(q, c). \<not> under root q) (mem_files w)"
    unfolding f by (rule outside_put_files)
  have "filter (\<lambda>p. p \<noteq> root \<and> \<not> under root p) (map (rebase src dst) (filter (under src) (mem_dirs w))) = []"
    using reb by (auto simp: filter_empty_conv)
  then have dirs: "filter (\<lambda>p. p \<noteq> root \<and> \<not> under root p) (mem_dirs w')
      = filter (\<lambda>p. p \<noteq> root \<and> \<not> under root p) (mem_dirs w)"
    unfolding d using dst by simp
  show ?thesis
    by (simp add: outside_def files dirs)
qed

lemma outside_emptyDir:
  assumes "mem_emptyDir root w = Inr w0"
  shows "outside root w0 = outside root w"
proof -
  from assms have "w0 = \<lparr>mem_files = filter (\<lambda>(p, c). \<not> under root p) (mem_files w),
                mem_dirs = filter (\<lambda>p. p \<noteq> root \<and> \<not> under root p) (mem_dirs w) @ [root]\<rparr>"
    by (auto simp: mem_emptyDir_def split: if_splits)
  then show ?thesis
    by (simp add: outside_def)
qed

lemma is_file_outside: "is_file root w \<longleftrightarrow> root \<in> fst ` set (fst (outside root w))"
  by (auto simp: is_file_def outside_def not_under_self)

lemma emptyDir_from_outside:
  assumes "outside root w1 = outside root w2"
  shows "mem_emptyDir root w1 = mem_emptyDir root w2"
proof -
  have "is_file root w1 = is_file root w2"
    by (simp add: is_file_outside assms)
  moreover from assms have "filter (\<lambda>(p, c). \<not> under root p) (mem_files w1)
      = filter (\<lambda>(p, c). \<not> under root p) (mem_files w2)"
    and "filter (\<lambda>p. p \<noteq> root \<and> \<not> under root p) (mem_dirs w1)
      = filter (\<lambda>p. p \<noteq> root \<and> \<not> under root p) (mem_dirs w2)"
    by (simp_all add: outside_def)
  ultimately show ?thesis
    by (simp add: mem_emptyDir_def)
qed

lemma emptyDir_clears:
  assumes "mem_emptyDir root w = Inr w0"
  shows "\<not> list_ex (under root) (map fst (mem_files w0) @ mem_dirs w0)"
proof -
  from assms have "w0 = \<lparr>mem_files = filter (\<lambda>(p, c). \<not> under root p) (mem_files w),
                mem_dirs = filter (\<lambda>p. p \<noteq> root \<and> \<not> under root p) (mem_dirs w) @ [root]\<rparr>"
    by (auto simp: mem_emptyDir_def split: if_splits)
  then show ?thesis
    by (auto simp: list_ex_iff not_under_self)
qed

section \<open>Output directories and selected files are plain paths\<close>

lemma plain_path_append:
  "plain_path a \<Longrightarrow> plain_path b \<Longrightarrow> plain_path (a @ ''/'' @ b)"
  by (simp add: plain_path_def split_on_append)

lemma plain_OUT_ROOT: "plain_path OUT_ROOT"
  by code_simp

lemma out_dir_plain:
  assumes "plain_path name"
  shows "posix_join [OUT_ROOT, name] = OUT_ROOT @ ''/'' @ name"
    and "plain_path (posix_join [OUT_ROOT, name])"
    and "under OUT_ROOT (posix_join [OUT_ROOT, name])"
proof -
  show eq: "posix_join [OUT_ROOT, name] = OUT_ROOT @ ''/'' @ name"
    using plain_OUT_ROOT assms by (rule posix_join_plain)
  show "plain_path (posix_join [OUT_ROOT, name])"
    unfolding eq using plain_OUT_ROOT assms by (rule plain_path_append)
  from assms have "name \<noteq> []" by (rule plain_path_nonempty)
  then show "under OUT_ROOT (posix_join [OUT_ROOT, name])"
    unfolding eq by (simp add: under_def)
qed

lemma join_under:
  assumes "under root a" and "plain_path a" and "plain_path f"
  shows "under root (posix_join [a, f])" and "plain_path (posix_join [a, f])"
proof -
  have eq: "posix_join [a, f] = a @ ''/'' @ f"
    using assms(2,3) by (rule posix_join_plain)
  show "under root (posix_join [a, f])"
    unfolding eq using assms(1) by (rule under_append)
  show "plain_path (posix_join [a, f])"
    unfolding eq using assms(2,3) by (rule plain_path_append)
qed

lemma join_with_starts:
  "t \<noteq> [] \<Longrightarrow> join_with sep (t # ss) \<noteq> []"
  by (cases ss) simp_all

lemma dirname_under:
  assumes name: "plain_path name" and f: "plain_path f"
  shows "under OUT_ROOT (posix_dirname (posix_join [posix_join [OUT_ROOT, name], f]))"
proof -
  let ?p = "OUT_ROOT @ CHR ''/'' # (name @ CHR ''/'' # f)"
  have eq: "posix_join [posix_join [OUT_ROOT, name], f] = ?p"
    using posix_join_plain [OF out_dir_plain(2) [OF name] f] out_dir_plain(1) [OF name] by simp
  have root: "split_on CHR ''/'' OUT_ROOT = [OUT_ROOT]"
    by code_simp
  obtain n ns where sn: "split_on CHR ''/'' name = n # ns"
    by (cases "split_on CHR ''/'' name") auto
  from name sn have n: "n \<noteq> []"
    by (simp add: plain_path_def plain_segment_def)
  obtain m l where sf: "split_on CHR ''/'' f = m @ [l]"
    by (metis split_on_nonempty rev_exhaust)
  have segs: "split_on CHR ''/'' ?p = OUT_ROOT # n # (ns @ m) @ [l]"
    by (simp add: split_on_append root sn sf)
  have bl: "butlast (split_on CHR ''/'' ?p) = OUT_ROOT # n # (ns @ m)"
    unfolding segs by (simp add: butlast_append)
  have "posix_dirname ?p = join_with ''/'' (OUT_ROOT # n # (ns @ m))"
    unfolding posix_dirname_def Let_def bl by (simp add: segs)
  also have "\<dots> = OUT_ROOT @ ''/'' @ join_with ''/'' (n # (ns @ m))"
    by simp
  finally have "posix_dirname ?p = OUT_ROOT @ ''/'' @ join_with ''/'' (n # (ns @ m))" .
  moreover have "join_with ''/'' (n # (ns @ m)) \<noteq> []"
    using n by (rule join_with_starts)
  ultimately show ?thesis
    unfolding eq by (simp add: under_def)
qed

lemma name_match_visible: "\<not> dot_name p \<Longrightarrow> name_match p n \<Longrightarrow> seg_visible n"
  by (auto simp: name_match_def seg_visible_def split: if_splits)

lemma segs_match_visible:
  "list_all (\<lambda>p. p = ''**'' \<or> \<not> dot_name p) ps \<Longrightarrow> segs_match ps ns \<Longrightarrow> list_all seg_visible ns"
proof (induction ps ns rule: segs_match.induct)
  case (1 ns)
  then show ?case by simp
next
  case (2 p ps)
  then show ?case by simp
next
  case (3 p ps n ns)
  show ?case
  proof (cases "p = ''**''")
    case True
    with 3 show ?thesis
      by (auto simp: seg_visible_def)
  next
    case False
    with 3 show ?thesis
      by (auto simp: name_match_visible)
  qed
qed

lemma seg_visible_plain: "seg_visible n \<Longrightarrow> plain_segment n"
  by (auto simp: seg_visible_def plain_segment_def dot_name_def)

lemma glob_match_plain: "pattern_ok pat \<Longrightarrow> glob_match pat f \<Longrightarrow> plain_path f"
  unfolding pattern_ok_def glob_match_def plain_path_def
  using segs_match_visible seg_visible_plain by (metis (mono_tags, lifting) list_all_iff)

lemma patterns_ok:
  "list_all pattern_ok [''*.md'', ''*.mdx'']" "list_all pattern_ok docPatterns"
  "list_all pattern_ok [''**/*.md'', ''**/*.mdx'']"
  by code_simp+

lemma globby_plain:
  assumes "list_all pattern_ok patterns" and "globby sys patterns cwd w = Inr found"
  shows "list_all plain_path found"
proof -
  from assms(2) obtain listed where
    "found = filter (\<lambda>f. \<exists>p \<in> set patterns. glob_match p f) listed"
    by (auto simp: globby_def and_then_eq_Inr)
  with assms(1) show ?thesis
    by (auto simp: list_all_iff intro: glob_match_plain)
qed

section \<open>A run changes nothing outside the output root\<close>

lemma mem_sys_calls:
  "path_join mem_sys a b = posix_join [a, b]" "path_dirname mem_sys = posix_dirname"
  "emptyDir mem_sys = mem_emptyDir" "existsSync mem_sys = mem_exists"
  "ensureDir mem_sys = mem_ensureDir" "copy mem_sys = mem_copy"
  "writeFile mem_sys = mem_writeFile"
  by (simp_all add: mem_sys_def)

lemma copy_markdownFiles_outside:
  assumes out: "under OUT_ROOT out" "plain_path out"
  shows "list_all plain_path found \<Longrightarrow> copy_markdownFiles mem_sys srcDocs out found w = Inr w'
           \<Longrightarrow> outside OUT_ROOT w' = outside OUT_ROOT w"
proof (induction found arbitrary: w)
  case Nil
  then show ?case by simp
next
  case (Cons f rest)
  from Cons.prems(2) obtain w1 where
    c: "mem_copy (posix_join [srcDocs, f]) (posix_join [out, f]) w = Inr w1"
    and r: "copy_markdownFiles mem_sys srcDocs out rest w1 = Inr w'"
    by (auto simp: and_then_eq_Inr mem_sys_calls)
  from Cons.prems(1) have pf: "plain_path f" and pr: "list_all plain_path rest"
    by simp_all
  have "outside OUT_ROOT w1 = outside OUT_ROOT w"
    using join_under(1) [OF out pf] c by (rule outside_copy)
  with Cons.IH [OF pr r] show ?case
    by simp
qed

lemma copy_docFiles_outside:
  assumes name: "plain_path name"
  shows "list_all plain_path found
           \<Longrightarrow> copy_docFiles mem_sys srcDocs (posix_join [OUT_ROOT, name]) found w = Inr w'
           \<Longrightarrow> outside OUT_ROOT w' = outside OUT_ROOT w"
proof (induction found arbitrary: w)
  case Nil
  then show ?case by simp
next
  case (Cons f rest)
  let ?out = "posix_join [OUT_ROOT, name]"
  from Cons.prems(1) have pf: "plain_path f" and pr: "list_all plain_path rest"
    by simp_all
  show ?case
  proof (cases "mem_exists (posix_join [srcDocs, f]) w")
    case True
    with Cons.prems(2) obtain w1 w2 where
      e: "mem_ensureDir (posix_dirname (posix_join [?out, f])) w = Inr w1"
      and c: "mem_copy (posix_join [srcDocs, f]) (posix_join [?out, f]) w1 = Inr w2"
      and r: "copy_docFiles mem_sys srcDocs ?out rest w2 = Inr w'"
      by (auto simp: and_then_eq_Inr mem_sys_calls Let_def)
    have "outside OUT_ROOT w1 = outside OUT_ROOT w"
      using dirname_under [OF name pf] e by (rule outside_ensureDir)
    moreover have "outside OUT_ROOT w2 = outside OUT_ROOT w1"
      using join_under(1) [OF out_dir_plain(3) [OF name] out_dir_plain(2) [OF name] pf] c
      by (rule outside_copy)
    ultimately show ?thesis
      using Cons.IH [OF pr r] by simp
  next
    case False
    with Cons.prems(2) have "copy_docFiles mem_sys srcDocs ?out rest w = Inr w'"
      by (simp add: mem_sys_calls Let_def)
    with Cons.IH [OF pr] show ?thesis
      by simp
  qed
qed

lemma copy_docs_outside:
  assumes name: "plain_path name"
    and run: "copy_docs mem_sys r srcDocs (posix_join [OUT_ROOT, name]) w = Inr w'"
  shows "outside OUT_ROOT w' = outside OUT_ROOT w"
proof (cases "docsDir r = Some ''.''")
  case True
  let ?out = "posix_join [OUT_ROOT, name]"
  from True run obtain w1 markdownFiles w2 docFiles where
    e: "mem_ensureDir ?out w = Inr w1"
    and g1: "globby mem_sys [''*.md'', ''*.mdx''] srcDocs w1 = Inr markdownFiles"
    and m: "copy_markdownFiles mem_sys srcDocs ?out markdownFiles w1 = Inr w2"
    and g2: "globby mem_sys docPatterns srcDocs w2 = Inr docFiles"
    and d: "copy_docFiles mem_sys srcDocs ?out docFiles w2 = Inr w'"
    by (auto simp: copy_docs_def and_then_eq_Inr mem_sys_calls)
  have "outside OUT_ROOT w1 = outside OUT_ROOT w"
    using out_dir_plain(3) [OF name] e by (rule outside_ensureDir)
  moreover have "outside OUT_ROOT w2 = outside OUT_ROOT w1"
    using copy_markdownFiles_outside [OF out_dir_plain(3) [OF name] out_dir_plain(2) [OF name]
        globby_plain [OF patterns_ok(1) g1] m] .
  moreover have "outside OUT_ROOT w' = outside OUT_ROOT w2"
    using copy_docFiles_outside [OF name globby_plain [OF patterns_ok(2) g2] d] .
  ultimately show ?thesis
    by simp
next
  case False
  with run have "mem_copy srcDocs (posix_join [OUT_ROOT, name]) w = Inr w'"
    by (simp add: copy_docs_def mem_sys_calls)
  with out_dir_plain(3) [OF name] show ?thesis
    by (rule outside_copy)
qed

lemma inject_files_outside:
  assumes out: "under OUT_ROOT out" "plain_path out"
  shows "list_all plain_path found \<Longrightarrow> inject_files mem_sys r out found w = Inr w'
           \<Longrightarrow> outside OUT_ROOT w' = outside OUT_ROOT w"
proof (induction found arbitrary: w)
  case Nil
  then show ?case by simp
next
  case (Cons f rest)
  from Cons.prems(2) obtain w1 where
    i: "inject_file mem_sys r out f w = Inr w1"
    and rr: "inject_files mem_sys r out rest w1 = Inr w'"
    by (auto simp: and_then_eq_Inr)
  from i obtain doc where wr: "mem_writeFile (posix_join [out, f]) doc w = Inr w1"
    by (auto simp: inject_file_def Let_def and_then_eq_Inr mem_sys_calls)
  from Cons.prems(1) have pf: "plain_path f" and pr: "list_all plain_path rest"
    by simp_all
  have "outside OUT_ROOT w1 = outside OUT_ROOT w"
    using join_under(1) [OF out pf] wr by (rule outside_writeFile)
  with Cons.IH [OF pr rr] show ?case
    by simp
qed

lemma inject_custom_edit_url_outside:
  assumes out: "under OUT_ROOT out" "plain_path out"
    and run: "inject_custom_edit_url mem_sys r out w = Inr w'"
  shows "outside OUT_ROOT w' = outside OUT_ROOT w"
proof -
  from run obtain found where
    g: "globby mem_sys [''**/*.md'', ''**/*.mdx''] out w = Inr found"
    and i: "inject_files mem_sys r out found w = Inr w'"
    by (auto simp: inject_custom_edit_url_def and_then_eq_Inr)
  from inject_files_outside [OF out globby_plain [OF patterns_ok(3) g] i] show ?thesis .
qed

lemma add_index_outside:
  assumes out: "under OUT_ROOT out" "plain_path out"
    and run: "add_index mem_sys r name out w = Inr w'"
  shows "outside OUT_ROOT w' = outside OUT_ROOT w"
proof (cases "hasIndex mem_sys out w")
  case True
  with run show ?thesis by (simp add: add_index_def)
next
  case False
  with run obtain doc where wr: "mem_writeFile (posix_join [out, ''index.md'']) doc w = Inr w'"
    by (auto simp: add_index_def and_then_eq_Inr mem_sys_calls)
  have "plain_path ''index.md''" by code_simp
  from join_under(1) [OF out this] wr show ?thesis
    by (rule outside_writeFile)
qed

lemma process_repo_outside:
  assumes wn: "well_named r" and run: "process_repo mem_sys r st = Inr st'"
  shows "outside OUT_ROOT (world st') = outside OUT_ROOT (world st)"
proof -
  from wn obtain name where name: "short_name r = Some name" and pl: "plain_path name"
    by (auto simp: well_named_def split: option.splits)
  let ?out = "posix_join [OUT_ROOT, name]"
  show ?thesis
  proof (cases "mem_exists (srcDocs_of mem_sys r) (world st)")
    case False
    with run name show ?thesis
      by (auto simp: process_repo_def Let_def mem_sys_calls)
  next
    case True
    with run name obtain w1 w2 w3 where
      c: "copy_docs mem_sys r (srcDocs_of mem_sys r) ?out (world st) = Inr w1"
      and i: "inject_custom_edit_url mem_sys r ?out w1 = Inr w2"
      and a: "add_index mem_sys r name ?out w2 = Inr w3"
      and s: "st' = st\<lparr>world := w3\<rparr>"
      by (auto simp: process_repo_def Let_def and_then_eq_Inr mem_sys_calls)
    note o = out_dir_plain(3) [OF pl] out_dir_plain(2) [OF pl]
    have "outside OUT_ROOT w1 = outside OUT_ROOT (world st)"
      using pl c by (rule copy_docs_outside)
    moreover have "outside OUT_ROOT w2 = outside OUT_ROOT w1"
      using o i by (rule inject_custom_edit_url_outside)
    moreover have "outside OUT_ROOT w3 = outside OUT_ROOT w2"
      using o a by (rule add_index_outside)
    ultimately show ?thesis
      using s by simp
  qed
qed

lemma run_repos_outside:
  "list_all well_named repos \<Longrightarrow> run_repos mem_sys repos st = Inr st'
     \<Longrightarrow> outside OUT_ROOT (world st') = outside OUT_ROOT (world st)"
proof (induction repos arbitrary: st)
  case Nil
  then show ?case by simp
next
  case (Cons r rest)
  from Cons.prems(2) obtain st1 where
    p: "process_repo mem_sys r st = Inr st1" and rr: "run_repos mem_sys rest st1 = Inr st'"
    by (auto simp: and_then_eq_Inr)
  from Cons.prems(1) have wn: "well_named r" and wr: "list_all well_named rest"
    by simp_all
  from process_repo_outside [OF wn p] Cons.IH [OF wr rr] show ?case
    by simp
qed

lemma run_with_from_outside:
  assumes "outside OUT_ROOT w1 = outside OUT_ROOT w2"
  shows "run_with mem_sys repos w1 = run_with mem_sys repos w2"
  using emptyDir_from_outside [OF assms] by (simp add: run_with_def mem_sys_calls)

lemma demo_run: "run_with mem_sys demo_repos demo_world = Inr demo_final"
  by code_simp

section \<open>The front-matter merge\<close>

text \<open>
  The claim C1 as the specification states it: a key that the existing front matter
  contains keeps its value, and the default is inserted only when the key is absent. It
  fails for a document whose front matter says \<^verbatim>\<open>custom_edit_url: null\<close>: the key is
  there, and the merged mapping holds the computed URL in its place.
\<close>

theorem front_matter_counterexample:
  "has_key [(''title'', JStr ''UI''), (''custom_edit_url'', JNull)] ''custom_edit_url''
   \<and> obj_get (merge_data [(''title'', JStr ''UI''), (''custom_edit_url'', JNull)]
                (custom_url ui_repo ''README.md'')) ''custom_edit_url''
        = JStr ''https://github.com/org/ui/edit/main/README.md''
   \<and> obj_get [(''title'', JStr ''UI''), (''custom_edit_url'', JNull)] ''custom_edit_url'' = JNull"
  by code_simp

text \<open>
  C1, amended. For a document that is read and decoded, the document written back is
  the encoding of the merged mapping, in which every key other than
  \<^verbatim>\<open>custom_edit_url\<close> keeps its value; \<^verbatim>\<open>custom_edit_url\<close> keeps its value whenever that
  value is neither \<^verbatim>\<open>null\<close> nor \<^verbatim>\<open>undefined\<close>, and then the whole mapping is written
  unchanged; when the key is absent the computed default is appended.
\<close>

theorem front_matter_preserved:
  assumes "readFile sys (path_join sys out rel) w = Inr raw" and "matter sys raw = Inr fm"
  shows "inject_file sys r out rel w =
           and_then (stringify sys (trimStart (content fm) @ [newline])
                       (merge_data (data fm) (custom_url r rel)))
             (\<lambda>doc. writeFile sys (path_join sys out rel) doc w)
         \<and> (\<forall>k. k \<noteq> ''custom_edit_url'' \<longrightarrow>
               obj_get (merge_data (data fm) (custom_url r rel)) k = obj_get (data fm) k)
         \<and> (\<not> nullish (obj_get (data fm) ''custom_edit_url'') \<longrightarrow>
               merge_data (data fm) (custom_url r rel) = data fm)
         \<and> (\<not> has_key (data fm) ''custom_edit_url'' \<longrightarrow>
               merge_data (data fm) (custom_url r rel)
                 = data fm @ [(''custom_edit_url'', JStr (custom_url r rel))])"
  using inject_file_eq [OF assms] merge_other_keys merge_keeps_value merge_absent
  by blast

lemma authored_read: "readFile mem_sys (path_join mem_sys ''projects/ui'' ''README.md'') authored_world = Inr authored_doc"
  by code_simp

lemma authored_decode: "decode authored_doc = \<lparr>data = [(''title'', JStr ''UI''), (''custom_edit_url'', JStr ''https://example.org/edit-me'')], content = ''# UI''\<rparr>"
  by code_simp

lemma authored_matter: "matter mem_sys authored_doc = Inr (decode authored_doc)"
  by (simp add: mem_sys_def)

theorem front_matter_preserved_witness:
  "readFile mem_sys (path_join mem_sys ''projects/ui'' ''README.md'') authored_world = Inr authored_doc
   \<and> matter mem_sys authored_doc = Inr (decode authored_doc)
   \<and> \<not> nullish (obj_get (data (decode authored_doc)) ''custom_edit_url'')
   \<and> merge_data (data (decode authored_doc)) (custom_url ui_repo ''README.md'') = data (decode authored_doc)
   \<and> obj_get (merge_data (data (decode authored_doc)) (custom_url ui_repo ''README.md'')) ''custom_edit_url''
        = JStr ''https://example.org/edit-me''
   \<and> obj_get (merge_data (data (decode authored_doc)) (custom_url ui_repo ''README.md'')) ''title''
        = JStr ''UI''"
proof -
  have nn: "\<not> nullish (obj_get (data (decode authored_doc)) ''custom_edit_url'')"
    by (simp add: authored_decode obj_get_def nullish_def)
  have cek: "obj_get (data (decode authored_doc)) ''custom_edit_url'' = JStr ''https://example.org/edit-me''"
    by (simp add: authored_decode obj_get_def)
  have ttl: "obj_get (data (decode authored_doc)) ''title'' = JStr ''UI''"
    by (simp add: authored_decode obj_get_def)
  from front_matter_preserved [OF authored_read authored_matter, of ui_repo] nn cek ttl
  show ?thesis
    using authored_read authored_matter by simp
qed

section \<open>The edit URL\<close>

text \<open>
  The claim C2 as the specification states it: the URL is the prefix followed by the
  source-relative path, and it never holds a backslash. Only the path after the branch
  has its backslashes replaced, so a branch name with a backslash leaves one in the
  URL, and a file name with a backslash (one name on a POSIX host) is not the path
  that ends the URL.
\<close>

theorem edit_url_counterexample:
  "backslash \<in> set (custom_url odd_branch_repo ''README.md'')
   \<and> custom_url ui_repo (''a'' @ [backslash] @ ''b.md'')
        \<noteq> ''https://github.com/org/ui/edit/main/'' @ (''a'' @ [backslash] @ ''b.md'')"
  by code_simp

text \<open>
  C2, amended. The URL is \<^verbatim>\<open>https://github.com/<repo>/edit/<branch or main>/\<close> followed
  by the source-relative path with every backslash replaced by a forward slash. That last
  part never holds a backslash, and neither does the whole URL when the repo identifier
  and the branch hold none. Under the root-level convention a path without backslashes
  ends the URL unchanged; under a dedicated directory the URL ends in
  \<^verbatim>\<open><docsDir>/<path>\<close> when both are plain. The URL is computed from the table entry
  and the relative path alone: no function of the host takes part.
\<close>

theorem edit_url_computation:
  "custom_url r rel = url_prefix r @ replace_backslashes (sourceRelPath r rel)
   \<and> backslash \<notin> set (replace_backslashes (sourceRelPath r rel))
   \<and> (backslash \<notin> set (repo r) \<and> backslash \<notin> set (branch_or_default r)
        \<longrightarrow> backslash \<notin> set (custom_url r rel))
   \<and> (docsDir r = Some ''.'' \<and> backslash \<notin> set rel
        \<longrightarrow> custom_url r rel = url_prefix r @ rel)
   \<and> (plain_path (docsDir_or_default r) \<and> plain_path rel
        \<and> backslash \<notin> set (docsDir_or_default r) \<and> backslash \<notin> set rel
        \<longrightarrow> custom_url r rel = url_prefix r @ docsDir_or_default r @ ''/'' @ rel)"
proof (intro conjI impI)
  show eq: "custom_url r rel = url_prefix r @ replace_backslashes (sourceRelPath r rel)"
    by (simp add: custom_url_def url_prefix_def)
  show nb: "backslash \<notin> set (replace_backslashes (sourceRelPath r rel))"
    by (rule no_backslash_after_replace)
  show "backslash \<notin> set (custom_url r rel)"
    if "backslash \<notin> set (repo r) \<and> backslash \<notin> set (branch_or_default r)"
    using that nb no_backslash_literals by (simp add: custom_url_def)
  show "custom_url r rel = url_prefix r @ rel"
    if "docsDir r = Some ''.'' \<and> backslash \<notin> set rel"
    using that by (simp add: eq sourceRelPath_def replace_backslashes_id)
  show "custom_url r rel = url_prefix r @ docsDir_or_default r @ ''/'' @ rel"
    if h: "plain_path (docsDir_or_default r) \<and> plain_path rel
        \<and> backslash \<notin> set (docsDir_or_default r) \<and> backslash \<notin> set rel"
  proof -
    from h have "docsDir r \<noteq> Some ''.''"
      by (auto simp: docsDir_or_default_def plain_path_def plain_segment_def)
    then have "sourceRelPath r rel = docsDir_or_default r @ ''/'' @ rel"
      using h by (simp add: sourceRelPath_def posix_join_plain)
    moreover have "backslash \<notin> set (docsDir_or_default r @ ''/'' @ rel)"
      using h no_backslash_literals by simp
    ultimately show ?thesis
      by (simp add: eq replace_backslashes_id)
  qed
qed

theorem edit_url_computation_witness:
  "backslash \<notin> set (repo sdk_repo) \<and> backslash \<notin> set (branch_or_default sdk_repo)
   \<and> plain_path (docsDir_or_default sdk_repo) \<and> plain_path ''devices.md''
   \<and> backslash \<notin> set (docsDir_or_default sdk_repo) \<and> backslash \<notin> set ''devices.md''
   \<and> backslash \<notin> set (custom_url sdk_repo ''devices.md'')
   \<and> custom_url sdk_repo ''devices.md'' = ''https://github.com/org/sdk/edit/main/docs/devices.md''
   \<and> docsDir ui_repo = Some ''.'' \<and> backslash \<notin> set ''README.md''
   \<and> custom_url ui_repo ''README.md'' = ''https://github.com/org/ui/edit/main/README.md''"
proof -
  have h1: "backslash \<notin> set (repo sdk_repo) \<and> backslash \<notin> set (branch_or_default sdk_repo)"
    by code_simp
  have h2: "plain_path (docsDir_or_default sdk_repo) \<and> plain_path ''devices.md''
      \<and> backslash \<notin> set (docsDir_or_default sdk_repo) \<and> backslash \<notin> set ''devices.md''"
    by code_simp
  have h3: "docsDir ui_repo = Some ''.'' \<and> backslash \<notin> set ''README.md''"
    by code_simp
  have p1: "url_prefix sdk_repo @ docsDir_or_default sdk_repo @ ''/'' @ ''devices.md''
      = ''https://github.com/org/sdk/edit/main/docs/devices.md''"
    by code_simp
  have p2: "url_prefix ui_repo @ ''README.md'' = ''https://github.com/org/ui/edit/main/README.md''"
    by code_simp
  from edit_url_computation [of sdk_repo "''devices.md''"] h1 h2
  have a: "backslash \<notin> set (custom_url sdk_repo ''devices.md'')"
    and b: "custom_url sdk_repo ''devices.md'' = url_prefix sdk_repo @ docsDir_or_default sdk_repo @ ''/'' @ ''devices.md''"
    by blast+
  from edit_url_computation [of ui_repo "''README.md''"] h3
  have c: "custom_url ui_repo ''README.md'' = url_prefix ui_repo @ ''README.md''"
    by blast
  show ?thesis
    using h1 h2 h3 a b c p1 p2 by simp
qed

section \<open>Errors while a repo is processed\<close>

text \<open>
  The claim C3 as the specification states it: a file-system error of the kind
  \<open>path not found\<close> during copy or write gives only a warning and the run ends with
  status 0. On a host where the source is gone when it is copied, the copy fails with
  \<open>ENOENT\<close>, and the run ends there with status 1.
\<close>

theorem errors_abort_run_counterexample:
  "run_with vanishing_sys [sdk_repo] sdk_world = Inl (FsError ENOENT)
   \<and> exit_status (run_with vanishing_sys [sdk_repo] sdk_world) = 1"
  by code_simp

text \<open>
  C3, amended. No call of the script has an error handler. Inside the per-file loops, an
  error thrown by a copy, by the creation of a directory, by reading a file, by the
  decoder, by the encoder or by writing a file ends the loop with that error, whatever
  was done for the files before it. An error of a loop, of a glob walk, of the creation
  of the output directory or of the copy of a dedicated directory ends the copy of the
  repo's documents or the rewriting of their front matter with that error, and an error
  of the encoder or of the write ends the writing of the index. When one of these three
  steps ends with an error for a repo whose convention root exists, whatever the error
  is (\<open>path not found\<close> included) and whatever repos were processed before, the run
  ends at once with that error, the repos after it are not processed, and the exit
  status is 1. The only missing path that is a warning is the convention root found
  missing beforehand, which is not an error thrown during copy or write.
\<close>

theorem errors_abort_run:
  "(copy_markdownFiles sys srcDocs out copied w = Inr w1
      \<and> copy sys (path_join sys srcDocs f) (path_join sys out f) w1 = Inl err
      \<longrightarrow> copy_markdownFiles sys srcDocs out (copied @ f # later) w = Inl err)
   \<and> (copy_docFiles sys srcDocs out copied w = Inr w1
        \<and> existsSync sys (path_join sys srcDocs f) w1
        \<and> (ensureDir sys (path_dirname sys (path_join sys out f)) w1 = Inl err
            \<or> (\<exists>w2. ensureDir sys (path_dirname sys (path_join sys out f)) w1 = Inr w2
                 \<and> copy sys (path_join sys srcDocs f) (path_join sys out f) w2 = Inl err))
        \<longrightarrow> copy_docFiles sys srcDocs out (copied @ f # later) w = Inl err)
   \<and> (inject_files sys r out copied w = Inr w1
        \<and> (readFile sys (path_join sys out f) w1 = Inl err
            \<or> (\<exists>raw. readFile sys (path_join sys out f) w1 = Inr raw
                 \<and> (matter sys raw = Inl err
                     \<or> (\<exists>fm. matter sys raw = Inr fm
                          \<and> (stringify sys (trimStart (content fm) @ [newline])
                                 (merge_data (data fm) (custom_url r f)) = Inl err
                              \<or> (\<exists>doc. stringify sys (trimStart (content fm) @ [newline])
                                          (merge_data (data fm) (custom_url r f)) = Inr doc
                                   \<and> writeFile sys (path_join sys out f) doc w1 = Inl err))))))
        \<longrightarrow> inject_files sys r out (copied @ f # later) w = Inl err)
   \<and> (docsDir r \<noteq> Some ''.'' \<and> copy sys srcDocs out w = Inl err
        \<longrightarrow> copy_docs sys r srcDocs out w = Inl err)
   \<and> (docsDir r = Some ''.''
        \<and> (ensureDir sys out w = Inl err
            \<or> (\<exists>w1. ensureDir sys out w = Inr w1
                 \<and> (walk sys srcDocs w1 = Inl err
                     \<or> (\<exists>markdownFiles. globby sys [''*.md'', ''*.mdx''] srcDocs w1 = Inr markdownFiles
                          \<and> (copy_markdownFiles sys srcDocs out markdownFiles w1 = Inl err
                              \<or> (\<exists>w2. copy_markdownFiles sys srcDocs out markdownFiles w1 = Inr w2
                                   \<and> (walk sys srcDocs w2 = Inl err
                                       \<or> (\<exists>docFiles. globby sys docPatterns srcDocs w2 = Inr docFiles
                                            \<and> copy_docFiles sys srcDocs out docFiles w2 = Inl err))))))))
        \<longrightarrow> copy_docs sys r srcDocs out w = Inl err)
   \<and> (walk sys out w = Inl err
        \<or> (\<exists>found. globby sys [''**/*.md'', ''**/*.mdx''] out w = Inr found
             \<and> inject_files sys r out found w = Inl err)
        \<longrightarrow> inject_custom_edit_url sys r out w = Inl err)
   \<and> (\<not> hasIndex sys out w
        \<and> (stringify sys (index_body r name) (index_data r) = Inl err
            \<or> (\<exists>doc. stringify sys (index_body r name) (index_data r) = Inr doc
                 \<and> writeFile sys (path_join sys out ''index.md'') doc w = Inl err))
        \<longrightarrow> add_index sys r name out w = Inl err)
   \<and> (emptyDir sys OUT_ROOT w = Inr w0
        \<and> run_repos sys before \<lparr>world = w0, warnings = [], logs = []\<rparr> = Inr st
        \<and> short_name r = Some name
        \<and> existsSync sys (srcDocs_of sys r) (world st)
        \<and> (copy_docs sys r (srcDocs_of sys r) (path_join sys OUT_ROOT name) (world st) = Inl err
            \<or> (\<exists>w1. copy_docs sys r (srcDocs_of sys r) (path_join sys OUT_ROOT name) (world st) = Inr w1
                 \<and> (inject_custom_edit_url sys r (path_join sys OUT_ROOT name) w1 = Inl err
                     \<or> (\<exists>w2. inject_custom_edit_url sys r (path_join sys OUT_ROOT name) w1 = Inr w2
                          \<and> add_index sys r name (path_join sys OUT_ROOT name) w2 = Inl err))))
        \<longrightarrow> run_with sys (before @ r # rest) w = Inl err
            \<and> exit_status (run_with sys (before @ r # rest) w) = 1)"
proof (intro conjI impI)
  assume "copy_markdownFiles sys srcDocs out copied w = Inr w1
      \<and> copy sys (path_join sys srcDocs f) (path_join sys out f) w1 = Inl err"
  then show "copy_markdownFiles sys srcDocs out (copied @ f # later) w = Inl err"
    by (simp add: copy_markdownFiles_append)
next
  assume "copy_docFiles sys srcDocs out copied w = Inr w1
        \<and> existsSync sys (path_join sys srcDocs f) w1
        \<and> (ensureDir sys (path_dirname sys (path_join sys out f)) w1 = Inl err
            \<or> (\<exists>w2. ensureDir sys (path_dirname sys (path_join sys out f)) w1 = Inr w2
                 \<and> copy sys (path_join sys srcDocs f) (path_join sys out f) w2 = Inl err))"
  then show "copy_docFiles sys srcDocs out (copied @ f # later) w = Inl err"
    by (auto simp: copy_docFiles_append Let_def)
next
  assume a: "inject_files sys r out copied w = Inr w1
        \<and> (readFile sys (path_join sys out f) w1 = Inl err
            \<or> (\<exists>raw. readFile sys (path_join sys out f) w1 = Inr raw
                 \<and> (matter sys raw = Inl err
                     \<or> (\<exists>fm. matter sys raw = Inr fm
                          \<and> (stringify sys (trimStart (content fm) @ [newline])
                                 (merge_data (data fm) (custom_url r f)) = Inl err
                              \<or> (\<exists>doc. stringify sys (trimStart (content fm) @ [newline])
                                          (merge_data (data fm) (custom_url r f)) = Inr doc
                                   \<and> writeFile sys (path_join sys out f) doc w1 = Inl err))))))"
  then have "inject_file sys r out f w1 = Inl err"
    using inject_file_error [of sys out f w1 err r] by blast
  with a show "inject_files sys r out (copied @ f # later) w = Inl err"
    by (simp add: inject_files_append)
next
  assume "docsDir r \<noteq> Some ''.'' \<and> copy sys srcDocs out w = Inl err"
  then show "copy_docs sys r srcDocs out w = Inl err"
    by (simp add: copy_docs_def)
next
  assume "docsDir r = Some ''.''
        \<and> (ensureDir sys out w = Inl err
            \<or> (\<exists>w1. ensureDir sys out w = Inr w1
                 \<and> (walk sys srcDocs w1 = Inl err
                     \<or> (\<exists>markdownFiles. globby sys [''*.md'', ''*.mdx''] srcDocs w1 = Inr markdownFiles
                          \<and> (copy_markdownFiles sys srcDocs out markdownFiles w1 = Inl err
                              \<or> (\<exists>w2. copy_markdownFiles sys srcDocs out markdownFiles w1 = Inr w2
                                   \<and> (walk sys srcDocs w2 = Inl err
                                       \<or> (\<exists>docFiles. globby sys docPatterns srcDocs w2 = Inr docFiles
                                            \<and> copy_docFiles sys srcDocs out docFiles w2 = Inl err))))))))"
  then show "copy_docs sys r srcDocs out w = Inl err"
    by (auto simp: copy_docs_def globby_walk_error)
next
  assume "walk sys out w = Inl err
        \<or> (\<exists>found. globby sys [''**/*.md'', ''**/*.mdx''] out w = Inr found
             \<and> inject_files sys r out found w = Inl err)"
  then show "inject_custom_edit_url sys r out w = Inl err"
    by (auto simp: inject_custom_edit_url_def globby_walk_error)
next
  assume "\<not> hasIndex sys out w
        \<and> (stringify sys (index_body r name) (index_data r) = Inl err
            \<or> (\<exists>doc. stringify sys (index_body r name) (index_data r) = Inr doc
                 \<and> writeFile sys (path_join sys out ''index.md'') doc w = Inl err))"
  then show "add_index sys r name out w = Inl err"
    by (auto simp: add_index_def)
next
  assume a: "emptyDir sys OUT_ROOT w = Inr w0
        \<and> run_repos sys before \<lparr>world = w0, warnings = [], logs = []\<rparr> = Inr st
        \<and> short_name r = Some name
        \<and> existsSync sys (srcDocs_of sys r) (world st)
        \<and> (copy_docs sys r (srcDocs_of sys r) (path_join sys OUT_ROOT name) (world st) = Inl err
            \<or> (\<exists>w1. copy_docs sys r (srcDocs_of sys r) (path_join sys OUT_ROOT name) (world st) = Inr w1
                 \<and> (inject_custom_edit_url sys r (path_join sys OUT_ROOT name) w1 = Inl err
                     \<or> (\<exists>w2. inject_custom_edit_url sys r (path_join sys OUT_ROOT name) w1 = Inr w2
                          \<and> add_index sys r name (path_join sys OUT_ROOT name) w2 = Inl err))))"
  then have "process_repo sys r st = Inl err"
    using process_repo_error [of r name sys st err] by blast
  with a have "run_repos sys (before @ r # rest) \<lparr>world = w0, warnings = [], logs = []\<rparr> = Inl err"
    by (simp add: run_repos_append)
  with a have run: "run_with sys (before @ r # rest) w = Inl err"
    by (simp add: run_with_def)
  then show "run_with sys (before @ r # rest) w = Inl err" .
  from run show "exit_status (run_with sys (before @ r # rest) w) = 1"
    by (simp add: exit_status_def)
qed

theorem errors_abort_run_witness:
  "emptyDir write_failing_sys OUT_ROOT demo_world = Inr demo_cleared
   \<and> run_repos write_failing_sys [sdk_repo] \<lparr>world = demo_cleared, warnings = [], logs = []\<rparr>
        = Inr sdk_done
   \<and> short_name ui_repo = Some ''ui''
   \<and> existsSync write_failing_sys (srcDocs_of write_failing_sys ui_repo) (world sdk_done)
   \<and> copy_docs write_failing_sys ui_repo (srcDocs_of write_failing_sys ui_repo)
        (path_join write_failing_sys OUT_ROOT ''ui'') (world sdk_done) = Inr ui_copied
   \<and> globby write_failing_sys [''**/*.md'', ''**/*.mdx''] (path_join write_failing_sys OUT_ROOT ''ui'')
        ui_copied = Inr [''README.md'']
   \<and> inject_files write_failing_sys ui_repo (path_join write_failing_sys OUT_ROOT ''ui'') [] ui_copied
        = Inr ui_copied
   \<and> readFile write_failing_sys
        (path_join write_failing_sys (path_join write_failing_sys OUT_ROOT ''ui'') ''README.md'')
        ui_copied = Inr null_url_doc
   \<and> matter write_failing_sys null_url_doc = Inr (decode null_url_doc)
   \<and> stringify write_failing_sys (trimStart (content (decode null_url_doc)) @ [newline])
        (merge_data (data (decode null_url_doc)) (custom_url ui_repo ''README.md''))
        = Inr ui_written_doc
   \<and> writeFile write_failing_sys
        (path_join write_failing_sys (path_join write_failing_sys OUT_ROOT ''ui'') ''README.md'')
        ui_written_doc ui_copied = Inl (FsError ENOENT)
   \<and> inject_files write_failing_sys ui_repo (path_join write_failing_sys OUT_ROOT ''ui'')
        [''README.md''] ui_copied = Inl (FsError ENOENT)
   \<and> inject_custom_edit_url write_failing_sys ui_repo (path_join write_failing_sys OUT_ROOT ''ui'')
        ui_copied = Inl (FsError ENOENT)
   \<and> run_with write_failing_sys [sdk_repo, ui_repo, gone_repo] demo_world = Inl (FsError ENOENT)
   \<and> exit_status (run_with write_failing_sys [sdk_repo, ui_repo, gone_repo] demo_world) = 1"
proof -
  let ?sys = write_failing_sys
  let ?out = "path_join write_failing_sys OUT_ROOT ''ui''"
  have a1: "emptyDir ?sys OUT_ROOT demo_world = Inr demo_cleared"
    by code_simp
  have a2: "run_repos ?sys [sdk_repo] \<lparr>world = demo_cleared, warnings = [], logs = []\<rparr> = Inr sdk_done"
    by code_simp
  have a3: "short_name ui_repo = Some ''ui''"
    by code_simp
  have a4: "existsSync ?sys (srcDocs_of ?sys ui_repo) (world sdk_done)"
    by code_simp
  have a5: "copy_docs ?sys ui_repo (srcDocs_of ?sys ui_repo) ?out (world sdk_done) = Inr ui_copied"
    by code_simp
  have a6: "globby ?sys [''**/*.md'', ''**/*.mdx''] ?out ui_copied = Inr [''README.md'']"
    by code_simp
  have a7: "inject_files ?sys ui_repo ?out [] ui_copied = Inr ui_copied"
    by simp
  have a8: "readFile ?sys (path_join ?sys ?out ''README.md'') ui_copied = Inr null_url_doc"
    by code_simp
  have a9: "matter ?sys null_url_doc = Inr (decode null_url_doc)"
    by (simp add: write_failing_sys_def mem_sys_def)
  have a10: "stringify ?sys (trimStart (content (decode null_url_doc)) @ [newline])
        (merge_data (data (decode null_url_doc)) (custom_url ui_repo ''README.md''))
        = Inr ui_written_doc"
    by code_simp
  have a11: "writeFile ?sys (path_join ?sys ?out ''README.md'') ui_written_doc ui_copied
        = Inl (FsError ENOENT)"
    by code_simp
  from errors_abort_run [where sys = write_failing_sys and r = ui_repo
      and out = "path_join write_failing_sys OUT_ROOT ''ui''" and name = "''ui''"
      and err = "FsError ENOENT" and f = "''README.md''" and copied = "[]" and later = "[]"
      and before = "[sdk_repo]" and rest = "[gone_repo]" and ?w0.0 = demo_cleared and st = sdk_done
      and w = ui_copied and ?w1.0 = ui_copied] a7 a8 a9 a10 a11
  have c1: "inject_files ?sys ui_repo ?out [''README.md''] ui_copied = Inl (FsError ENOENT)"
    by auto
  from errors_abort_run [where sys = write_failing_sys and r = ui_repo
      and out = "path_join write_failing_sys OUT_ROOT ''ui''" and name = "''ui''"
      and err = "FsError ENOENT" and f = "''README.md''" and copied = "[]" and later = "[]"
      and before = "[sdk_repo]" and rest = "[gone_repo]" and ?w0.0 = demo_cleared and st = sdk_done
      and w = ui_copied and ?w1.0 = ui_copied] a6 c1
  have c2: "inject_custom_edit_url ?sys ui_repo ?out ui_copied = Inl (FsError ENOENT)"
    by blast
  from errors_abort_run [where sys = write_failing_sys and r = ui_repo
      and out = "path_join write_failing_sys OUT_ROOT ''ui''" and name = "''ui''"
      and err = "FsError ENOENT" and f = "''README.md''" and copied = "[]" and later = "[]"
      and before = "[sdk_repo]" and rest = "[gone_repo]" and ?w0.0 = demo_cleared and st = sdk_done
      and w = demo_world and ?w1.0 = ui_copied, THEN conjunct2, THEN conjunct2, THEN conjunct2,
      THEN conjunct2, THEN conjunct2, THEN conjunct2, THEN conjunct2] a1 a2 a3 a4 a5 c2
  have "run_with ?sys ([sdk_repo] @ [ui_repo, gone_repo]) demo_world = Inl (FsError ENOENT)
   \<and> exit_status (run_with ?sys ([sdk_repo] @ [ui_repo, gone_repo]) demo_world) = 1"
    by blast
  then have c3: "run_with ?sys [sdk_repo, ui_repo, gone_repo] demo_world = Inl (FsError ENOENT)
   \<and> exit_status (run_with ?sys [sdk_repo, ui_repo, gone_repo] demo_world) = 1"
    by (simp add: exit_status_def)
  show ?thesis
    by (intro conjI) (use a1 a2 a3 a4 a5 a6 a7 a8 a9 a10 a11 c1 c2 c3 in blast)+
qed

section \<open>Errors of the front-matter decoder\<close>

text \<open>
  The claim C4 as the specification states it: decoding front matter never throws, and a
  malformed metadata block is never an error. The script calls the decoder of
  \<^verbatim>\<open>gray-matter\<close> (line 66) with no handler, and that decoder throws on a block that
  is not valid YAML. On a host whose decoder throws on such a document, the run ends
  with the decoder's error and status 1.
\<close>

theorem decoder_error_aborts_counterexample:
  "readFile strict_sys ''_sources/ui/README.md'' bad_yaml_world = Inr bad_yaml_doc
   \<and> matter strict_sys bad_yaml_doc = Inl (OtherError ''YAMLException'')
   \<and> run_with strict_sys [sdk_repo, ui_repo] bad_yaml_world = Inl (OtherError ''YAMLException'')
   \<and> exit_status (run_with strict_sys [sdk_repo, ui_repo] bad_yaml_world) = 1"
  by code_simp

text \<open>
  C4, amended. The script handles no error of the decoder. When a document selected for
  rewriting has been read (the repos before it processed, its repo's documents copied,
  the documents before it rewritten) and the decoder throws on it, the run ends at once
  with that error and exit status 1. When the decoder returns a mapping and a body, the
  document is rewritten from exactly these: the body without its leading white space,
  and the mapping merged with the computed edit URL.
\<close>

theorem decoder_error_aborts:
  assumes "emptyDir sys OUT_ROOT w = Inr w0"
    and "run_repos sys before \<lparr>world = w0, warnings = [], logs = []\<rparr> = Inr st"
    and "short_name r = Some name"
    and "existsSync sys (srcDocs_of sys r) (world st)"
    and "copy_docs sys r (srcDocs_of sys r) (path_join sys OUT_ROOT name) (world st) = Inr w1"
    and "globby sys [''**/*.md'', ''**/*.mdx''] (path_join sys OUT_ROOT name) w1 = Inr (rewritten @ rel # later)"
    and "inject_files sys r (path_join sys OUT_ROOT name) rewritten w1 = Inr w2"
    and "readFile sys (path_join sys (path_join sys OUT_ROOT name) rel) w2 = Inr raw"
  shows "(matter sys raw = Inl err \<longrightarrow>
            run_with sys (before @ r # rest) w = Inl err
            \<and> exit_status (run_with sys (before @ r # rest) w) = 1)
         \<and> (\<forall>fm. matter sys raw = Inr fm \<longrightarrow>
               inject_file sys r (path_join sys OUT_ROOT name) rel w2 =
                 and_then (stringify sys (trimStart (content fm) @ [newline])
                             (merge_data (data fm) (custom_url r rel)))
                   (\<lambda>doc. writeFile sys (path_join sys (path_join sys OUT_ROOT name) rel) doc w2))"
proof (intro conjI impI allI)
  assume m: "matter sys raw = Inl err"
  have "inject_file sys r (path_join sys OUT_ROOT name) rel w2 = Inl err"
    using assms(8) m by (rule matter_error_aborts)
  from inject_error_aborts [OF assms(1-7) this]
  show "run_with sys (before @ r # rest) w = Inl err" .
  then show "exit_status (run_with sys (before @ r # rest) w) = 1"
    by (simp add: exit_status_def)
next
  fix fm
  assume "matter sys raw = Inr fm"
  with assms(8) show "inject_file sys r (path_join sys OUT_ROOT name) rel w2 =
                 and_then (stringify sys (trimStart (content fm) @ [newline])
                             (merge_data (data fm) (custom_url r rel)))
                   (\<lambda>doc. writeFile sys (path_join sys (path_join sys OUT_ROOT name) rel) doc w2)"
    by (rule inject_file_eq)
qed

theorem decoder_error_aborts_witness:
  "emptyDir strict_sys OUT_ROOT bad_yaml_world = Inr yaml_cleared
   \<and> run_repos strict_sys [sdk_repo] \<lparr>world = yaml_cleared, warnings = [], logs = []\<rparr>
        = Inr yaml_sdk_done
   \<and> short_name ui_repo = Some ''ui''
   \<and> existsSync strict_sys (srcDocs_of strict_sys ui_repo) (world yaml_sdk_done)
   \<and> copy_docs strict_sys ui_repo (srcDocs_of strict_sys ui_repo)
        (path_join strict_sys OUT_ROOT ''ui'') (world yaml_sdk_done) = Inr yaml_ui_copied
   \<and> globby strict_sys [''**/*.md'', ''**/*.mdx''] (path_join strict_sys OUT_ROOT ''ui'')
        yaml_ui_copied = Inr ([] @ ''README.md'' # [''CHANGES.md''])
   \<and> inject_files strict_sys ui_repo (path_join strict_sys OUT_ROOT ''ui'') [] yaml_ui_copied
        = Inr yaml_ui_copied
   \<and> readFile strict_sys (path_join strict_sys (path_join strict_sys OUT_ROOT ''ui'') ''README.md'')
        yaml_ui_copied = Inr bad_yaml_doc
   \<and> matter strict_sys bad_yaml_doc = Inl (OtherError ''YAMLException'')
   \<and> run_with strict_sys [sdk_repo, ui_repo, gone_repo] bad_yaml_world
        = Inl (OtherError ''YAMLException'')
   \<and> exit_status (run_with strict_sys [sdk_repo, ui_repo, gone_repo] bad_yaml_world) = 1
   \<and> emptyDir mem_sys OUT_ROOT demo_world = Inr demo_cleared
   \<and> run_repos mem_sys [sdk_repo] \<lparr>world = demo_cleared, warnings = [], logs = []\<rparr> = Inr sdk_done
   \<and> existsSync mem_sys (srcDocs_of mem_sys ui_repo) (world sdk_done)
   \<and> copy_docs mem_sys ui_repo (srcDocs_of mem_sys ui_repo)
        (path_join mem_sys OUT_ROOT ''ui'') (world sdk_done) = Inr ui_copied
   \<and> globby mem_sys [''**/*.md'', ''**/*.mdx''] (path_join mem_sys OUT_ROOT ''ui'') ui_copied
        = Inr ([] @ ''README.md'' # [])
   \<and> inject_files mem_sys ui_repo (path_join mem_sys OUT_ROOT ''ui'') [] ui_copied = Inr ui_copied
   \<and> readFile mem_sys (path_join mem_sys (path_join mem_sys OUT_ROOT ''ui'') ''README.md'')
        ui_copied = Inr null_url_doc
   \<and> matter mem_sys null_url_doc
        = Inr \<lparr>data = [(''title'', JStr ''UI''), (''custom_edit_url'', JNull)], content = ''# UI''\<rparr>
   \<and> inject_file mem_sys ui_repo (path_join mem_sys OUT_ROOT ''ui'') ''README.md'' ui_copied
        = and_then (stringify mem_sys (trimStart ''# UI'' @ [newline])
                     (merge_data [(''title'', JStr ''UI''), (''custom_edit_url'', JNull)]
                        (custom_url ui_repo ''README.md'')))
            (\<lambda>doc. writeFile mem_sys (path_join mem_sys (path_join mem_sys OUT_ROOT ''ui'') ''README.md'')
                      doc ui_copied)
   \<and> inject_file mem_sys ui_repo (path_join mem_sys OUT_ROOT ''ui'') ''README.md'' ui_copied
        = Inr ui_injected
   \<and> readFile mem_sys ''projects/ui/README.md'' ui_injected = Inr ui_written_doc"
proof -
  have a1: "emptyDir strict_sys OUT_ROOT bad_yaml_world = Inr yaml_cleared"
    by code_simp
  have a2: "run_repos strict_sys [sdk_repo] \<lparr>world = yaml_cleared, warnings = [], logs = []\<rparr>
        = Inr yaml_sdk_done"
    by code_simp
  have a3: "short_name ui_repo = Some ''ui''"
    by code_simp
  have a4: "existsSync strict_sys (srcDocs_of strict_sys ui_repo) (world yaml_sdk_done)"
    by code_simp
  have a5: "copy_docs strict_sys ui_repo (srcDocs_of strict_sys ui_repo)
        (path_join strict_sys OUT_ROOT ''ui'') (world yaml_sdk_done) = Inr yaml_ui_copied"
    by code_simp
  have a6: "globby strict_sys [''**/*.md'', ''**/*.mdx''] (path_join strict_sys OUT_ROOT ''ui'')
        yaml_ui_copied = Inr ([] @ ''README.md'' # [''CHANGES.md''])"
    by code_simp
  have a7: "inject_files strict_sys ui_repo (path_join strict_sys OUT_ROOT ''ui'') [] yaml_ui_copied
        = Inr yaml_ui_copied"
    by simp
  have a8: "readFile strict_sys (path_join strict_sys (path_join strict_sys OUT_ROOT ''ui'') ''README.md'')
        yaml_ui_copied = Inr bad_yaml_doc"
    by code_simp
  have a9: "matter strict_sys bad_yaml_doc = Inl (OtherError ''YAMLException'')"
    by (simp add: strict_sys_def)
  from decoder_error_aborts [OF a1 a2 a3 a4 a5 a6 a7 a8, of "OtherError ''YAMLException''" "[gone_repo]"] a9
  have c1: "run_with strict_sys [sdk_repo, ui_repo, gone_repo] bad_yaml_world
        = Inl (OtherError ''YAMLException'')
   \<and> exit_status (run_with strict_sys [sdk_repo, ui_repo, gone_repo] bad_yaml_world) = 1"
    by (simp add: exit_status_def)
  have b1: "emptyDir mem_sys OUT_ROOT demo_world = Inr demo_cleared"
    by code_simp
  have b2: "run_repos mem_sys [sdk_repo] \<lparr>world = demo_cleared, warnings = [], logs = []\<rparr> = Inr sdk_done"
    by code_simp
  have b4: "existsSync mem_sys (srcDocs_of mem_sys ui_repo) (world sdk_done)"
    by code_simp
  have b5: "copy_docs mem_sys ui_repo (srcDocs_of mem_sys ui_repo)
        (path_join mem_sys OUT_ROOT ''ui'') (world sdk_done) = Inr ui_copied"
    by code_simp
  have b6: "globby mem_sys [''**/*.md'', ''**/*.mdx''] (path_join mem_sys OUT_ROOT ''ui'') ui_copied
        = Inr ([] @ ''README.md'' # [])"
    by code_simp
  have b7: "inject_files mem_sys ui_repo (path_join mem_sys OUT_ROOT ''ui'') [] ui_copied = Inr ui_copied"
    by simp
  have b8: "readFile mem_sys (path_join mem_sys (path_join mem_sys OUT_ROOT ''ui'') ''README.md'')
        ui_copied = Inr null_url_doc"
    by code_simp
  have b9: "matter mem_sys null_url_doc
        = Inr \<lparr>data = [(''title'', JStr ''UI''), (''custom_edit_url'', JNull)], content = ''# UI''\<rparr>"
    by code_simp
  have b10: "inject_file mem_sys ui_repo (path_join mem_sys OUT_ROOT ''ui'') ''README.md'' ui_copied
        = Inr ui_injected
   \<and> readFile mem_sys ''projects/ui/README.md'' ui_injected = Inr ui_written_doc"
    by code_simp
  from decoder_error_aborts [OF b1 b2 a3 b4 b5 b6 b7 b8] b9
  have c2: "inject_file mem_sys ui_repo (path_join mem_sys OUT_ROOT ''ui'') ''README.md'' ui_copied
        = and_then (stringify mem_sys (trimStart ''# UI'' @ [newline])
                     (merge_data [(''title'', JStr ''UI''), (''custom_edit_url'', JNull)]
                        (custom_url ui_repo ''README.md'')))
            (\<lambda>doc. writeFile mem_sys (path_join mem_sys (path_join mem_sys OUT_ROOT ''ui'') ''README.md'')
                      doc ui_copied)"
    by simp
  show ?thesis
    by (intro conjI) (use a1 a2 a3 a4 a5 a6 a7 a8 a9 c1 b1 b2 b4 b5 b6 b7 b8 b9 c2 b10 in blast)+
qed

section \<open>Running twice\<close>

text \<open>
  C5. On the in-memory host, for a table of well-named repos: a run that succeeds
  leaves everything outside the output root as it was; run again on the file system it
  left, it ends in exactly the same state (the same files with the same contents, the
  same warnings, the same log); run on any file system that holds the same outside the
  output root, whatever lies under the output root, it ends in that state as well, so
  that nothing of an earlier run persists; and emptying the output root leaves nothing
  under it.
\<close>

theorem rerun_same_output:
  assumes "list_all well_named repos" and "run_with mem_sys repos w = Inr st"
  shows "outside OUT_ROOT (world st) = outside OUT_ROOT w
         \<and> run_with mem_sys repos (world st) = Inr st
         \<and> (\<forall>w'. outside OUT_ROOT w' = outside OUT_ROOT w \<longrightarrow> run_with mem_sys repos w' = Inr st)
         \<and> (\<forall>w0. emptyDir mem_sys OUT_ROOT w = Inr w0 \<longrightarrow>
               \<not> list_ex (under OUT_ROOT) (map fst (mem_files w0) @ mem_dirs w0))"
proof -
  from assms(2) obtain w0 st0 where
    e: "mem_emptyDir OUT_ROOT w = Inr w0"
    and rr: "run_repos mem_sys repos \<lparr>world = w0, warnings = [], logs = []\<rparr> = Inr st0"
    and st: "st = st0\<lparr>logs := logs st0 @ [''Aggregation complete.'']\<rparr>"
    by (auto simp: run_with_def and_then_eq_Inr mem_sys_calls)
  have "outside OUT_ROOT (world st0) = outside OUT_ROOT w0"
    using run_repos_outside [OF assms(1) rr] by simp
  with outside_emptyDir [OF e] st have same: "outside OUT_ROOT (world st) = outside OUT_ROOT w"
    by simp
  have indep: "run_with mem_sys repos w' = Inr st" if "outside OUT_ROOT w' = outside OUT_ROOT w" for w'
    using run_with_from_outside [OF that] assms(2) by simp
  have cleared: "\<not> list_ex (under OUT_ROOT) (map fst (mem_files w1) @ mem_dirs w1)"
    if "emptyDir mem_sys OUT_ROOT w = Inr w1" for w1
    using that emptyDir_clears [of OUT_ROOT w w1] by (simp add: mem_sys_calls)
  show ?thesis
    using same indep [OF same] indep cleared by blast
qed

theorem rerun_same_output_witness:
  "list_all well_named demo_repos
   \<and> run_with mem_sys demo_repos demo_world = Inr demo_final
   \<and> outside OUT_ROOT (world demo_final) = outside OUT_ROOT demo_world
   \<and> run_with mem_sys demo_repos (world demo_final) = Inr demo_final
   \<and> outside OUT_ROOT stale_world = outside OUT_ROOT demo_world
   \<and> run_with mem_sys demo_repos stale_world = Inr demo_final
   \<and> emptyDir mem_sys OUT_ROOT demo_world = Inr demo_cleared
   \<and> \<not> list_ex (under OUT_ROOT) (map fst (mem_files demo_cleared) @ mem_dirs demo_cleared)
   \<and> map_of (mem_files demo_world) ''projects/stale/old.md'' = Some ''# Old''
   \<and> \<not> mem_exists ''projects/stale'' (world demo_final)
   \<and> \<not> mem_exists ''projects/removed'' (world demo_final)
   \<and> map_of (mem_files (world demo_final)) ''projects/sdk/devices.md'' = Some sdk_written_doc
   \<and> map_of (mem_files (world demo_final)) ''projects/ui/README.md'' = Some ui_written_doc
   \<and> map_of (mem_files (world demo_final)) ''_sources/sdk/docs/devices.md'' = Some ''# Devices''"
proof -
  have wn: "list_all well_named demo_repos"
    by code_simp
  have s: "outside OUT_ROOT stale_world = outside OUT_ROOT demo_world"
    by code_simp
  have e: "emptyDir mem_sys OUT_ROOT demo_world = Inr demo_cleared"
    by code_simp
  have f: "map_of (mem_files demo_world) ''projects/stale/old.md'' = Some ''# Old''
   \<and> \<not> mem_exists ''projects/stale'' (world demo_final)
   \<and> \<not> mem_exists ''projects/removed'' (world demo_final)
   \<and> map_of (mem_files (world demo_final)) ''projects/sdk/devices.md'' = Some sdk_written_doc
   \<and> map_of (mem_files (world demo_final)) ''projects/ui/README.md'' = Some ui_written_doc
   \<and> map_of (mem_files (world demo_final)) ''_sources/sdk/docs/devices.md'' = Some ''# Devices''"
    by code_simp
  from rerun_same_output [OF wn demo_run] s e
  have "outside OUT_ROOT (world demo_final) = outside OUT_ROOT demo_world"
    and "run_with mem_sys demo_repos (world demo_final) = Inr demo_final"
    and "run_with mem_sys demo_repos stale_world = Inr demo_final"
    and "\<not> list_ex (under OUT_ROOT) (map fst (mem_files demo_cleared) @ mem_dirs demo_cleared)"
    by blast+
  with wn demo_run s e f show ?thesis
    by simp
qed

section \<open>A repo whose sources are missing\<close>

text \<open>
  C6. When the convention root of a repo (whose identifier has the form
  \<^verbatim>\<open>namespace/name\<close>) does not exist when its turn comes, processing it adds exactly
  one warning and changes nothing else. The run over the whole table is then the run
  over the table without that repo, with that one warning put where the repo stands:
  when the other repos succeed, the whole table succeeds with the same file system and
  log, and the warnings are those of the repos before, the skip warning, and those of
  the repos after; when one of the other repos fails, the whole table fails with the
  same error.
\<close>

theorem missing_source_skipped:
  assumes "short_name r = Some name"
    and "run_repos sys before st = Inr st1"
    and "\<not> existsSync sys (srcDocs_of sys r) (world st1)"
  shows "process_repo sys r st1 = Inr (st1\<lparr>warnings := warnings st1 @ [skip_warning sys r]\<rparr>)
         \<and> (\<forall>st2. run_repos sys (before @ rest) st = Inr st2 \<longrightarrow>
               run_repos sys (before @ r # rest) st
                 = Inr (st2\<lparr>warnings := warnings st1 @ skip_warning sys r
                                  # drop (length (warnings st1)) (warnings st2)\<rparr>)
               \<and> warnings st2 = warnings st1 @ drop (length (warnings st1)) (warnings st2))
         \<and> (\<forall>e. run_repos sys (before @ rest) st = Inl e \<longrightarrow>
               run_repos sys (before @ r # rest) st = Inl e)"
proof -
  have skip: "process_repo sys r st1 = Inr (st1\<lparr>warnings := warnings st1 @ [skip_warning sys r]\<rparr>)"
    using assms(1,3) by (rule process_repo_skip)
  have with_r: "run_repos sys (before @ r # rest) st
      = run_repos sys rest (st1\<lparr>warnings := warnings st1 @ [skip_warning sys r]\<rparr>)"
    using assms(2) skip by (simp add: run_repos_append)
  have without_r: "run_repos sys (before @ rest) st = run_repos sys rest st1"
    using assms(2) by (simp add: run_repos_append)
  note re = run_repos_reroute [where sys = sys and rs = rest and st = st1 and ws = "warnings st1 @ [skip_warning sys r]"]
  show ?thesis
    using skip with_r without_r re by (auto split: sum.splits)
qed

theorem missing_source_skipped_witness:
  "short_name gone_repo = Some ''gone''
   \<and> run_repos mem_sys [sdk_repo] demo_cleared_state = Inr sdk_done
   \<and> \<not> existsSync mem_sys (srcDocs_of mem_sys gone_repo) (world sdk_done)
   \<and> process_repo mem_sys gone_repo sdk_done
       = Inr (sdk_done\<lparr>warnings := [''[skip] org/gone has no _sources/gone'']\<rparr>)
   \<and> run_repos mem_sys [sdk_repo, ui_repo] demo_cleared_state = Inr two_done
   \<and> warnings two_done = []
   \<and> run_repos mem_sys [sdk_repo, gone_repo, ui_repo] demo_cleared_state
       = Inr (two_done\<lparr>warnings := [''[skip] org/gone has no _sources/gone'']\<rparr>)
   \<and> map_of (mem_files (world two_done)) ''projects/ui/README.md'' = Some ui_written_doc
   \<and> map_of (mem_files (world two_done)) ''projects/ui/docs/shot.png'' = Some ''PNG''
   \<and> map_of (mem_files (world two_done)) ''projects/sdk/devices.md'' = Some sdk_written_doc
   \<and> \<not> mem_exists ''projects/gone'' (world two_done)"
proof -
  have n: "short_name gone_repo = Some ''gone''"
    by code_simp
  have b: "run_repos mem_sys [sdk_repo] demo_cleared_state = Inr sdk_done"
    by code_simp
  have e: "\<not> existsSync mem_sys (srcDocs_of mem_sys gone_repo) (world sdk_done)"
    by code_simp
  have t: "run_repos mem_sys ([sdk_repo] @ [ui_repo]) demo_cleared_state = Inr two_done"
    by code_simp
  have m: "warnings sdk_done = [] \<and> warnings two_done = []
           \<and> skip_warning mem_sys gone_repo = ''[skip] org/gone has no _sources/gone''"
    by code_simp
  have f: "map_of (mem_files (world two_done)) ''projects/ui/README.md'' = Some ui_written_doc
   \<and> map_of (mem_files (world two_done)) ''projects/ui/docs/shot.png'' = Some ''PNG''
   \<and> map_of (mem_files (world two_done)) ''projects/sdk/devices.md'' = Some sdk_written_doc
   \<and> \<not> mem_exists ''projects/gone'' (world two_done)"
    by code_simp
  from missing_source_skipped [OF n b e, of "[ui_repo]"] t m
  have "process_repo mem_sys gone_repo sdk_done
       = Inr (sdk_done\<lparr>warnings := [''[skip] org/gone has no _sources/gone'']\<rparr>)"
    and "run_repos mem_sys [sdk_repo, gone_repo, ui_repo] demo_cleared_state
       = Inr (two_done\<lparr>warnings := [''[skip] org/gone has no _sources/gone'']\<rparr>)"
    by simp_all
  with n b e t m f show ?thesis
    by simp
qed

section \<open>The fallback index\<close>

text \<open>
  The claim C7 as the specification states it: after a successful run every repo
  subdirectory contains an index or README document. The script tests for the two names
  with \<^verbatim>\<open>existsSync\<close> (lines 83 and 84), which also holds of a directory. A dedicated
  directory that holds a directory named \<^verbatim>\<open>index.md\<close> is copied as it is, no index is
  written, and after the run, which succeeds without a warning, the output directory
  holds neither an \<^verbatim>\<open>index.md\<close> nor a \<^verbatim>\<open>README.md\<close> document.
\<close>

theorem fallback_index_counterexample:
  "exit_status (run_with mem_sys [sdk_repo] index_dir_world) = 0
   \<and> exists_after ''projects/sdk/other.md'' (run_with mem_sys [sdk_repo] index_dir_world)
   \<and> exists_after ''projects/sdk/index.md/notes.txt'' (run_with mem_sys [sdk_repo] index_dir_world)
   \<and> (case run_with mem_sys [sdk_repo] index_dir_world of
         Inl err \<Rightarrow> False
       | Inr st \<Rightarrow>
           warnings st = []
           \<and> hasIndex mem_sys ''projects/sdk'' (world st)
           \<and> readFile mem_sys ''projects/sdk/index.md'' (world st) = Inl (FsError ENOENT)
           \<and> readFile mem_sys ''projects/sdk/README.md'' (world st) = Inl (FsError ENOENT)
           \<and> map fst (filter (\<lambda>(p, c). under ''projects/sdk'' p) (mem_files (world st)))
                = [''projects/sdk/index.md/notes.txt'', ''projects/sdk/other.md''])"
  by code_simp

text \<open>
  C7, amended. On a host that keeps paths and reads back what was written, after a
  successful run every repo of the table was either skipped with its warning or has a
  path named \<^verbatim>\<open>index.md\<close> or \<^verbatim>\<open>README.md\<close>, a file or a directory, at the top of its
  output directory. When a repo is processed and neither path exists after copying and
  rewriting, the file \<^verbatim>\<open>index.md\<close> is written there and holds, when read back, the
  encoding of the index body with the index front matter; when one of the paths exists,
  nothing more is written. The first line of the index body is the level-1 heading
  \<^verbatim>\<open># <short name>\<close>, its text contains the repo identifier, and the index front
  matter is \<^verbatim>\<open>custom_edit_url: https://github.com/<repo>\<close>, the root of the repository.
\<close>

theorem fallback_index:
  assumes "keeps_paths sys" and "reads_back sys"
    and "run_with sys repos w = Inr st" and "r \<in> set repos"
  shows "(\<exists>name. short_name r = Some name
            \<and> (skip_warning sys r \<in> set (warnings st)
                 \<or> hasIndex sys (path_join sys OUT_ROOT name) (world st)))
         \<and> (\<forall>name st1 st2 w1 w2.
               short_name r = Some name
               \<and> existsSync sys (srcDocs_of sys r) (world st1)
               \<and> copy_docs sys r (srcDocs_of sys r) (path_join sys OUT_ROOT name) (world st1) = Inr w1
               \<and> inject_custom_edit_url sys r (path_join sys OUT_ROOT name) w1 = Inr w2
               \<and> \<not> hasIndex sys (path_join sys OUT_ROOT name) w2
               \<and> process_repo sys r st1 = Inr st2
               \<longrightarrow> (\<exists>doc. stringify sys (index_body r name) (index_data r) = Inr doc
                      \<and> writeFile sys (path_join sys (path_join sys OUT_ROOT name) ''index.md'') doc w2
                           = Inr (world st2)
                      \<and> readFile sys (path_join sys (path_join sys OUT_ROOT name) ''index.md'')
                           (world st2) = Inr doc))
         \<and> (\<forall>name st1 w1 w2.
               short_name r = Some name
               \<and> existsSync sys (srcDocs_of sys r) (world st1)
               \<and> copy_docs sys r (srcDocs_of sys r) (path_join sys OUT_ROOT name) (world st1) = Inr w1
               \<and> inject_custom_edit_url sys r (path_join sys OUT_ROOT name) w1 = Inr w2
               \<and> hasIndex sys (path_join sys OUT_ROOT name) w2
               \<longrightarrow> process_repo sys r st1 = Inr (st1\<lparr>world := w2\<rparr>))
         \<and> (\<forall>name. newline \<notin> set name \<longrightarrow>
               hd (split_on newline (index_body r name)) = ''# '' @ name)
         \<and> (\<forall>name. \<exists>pre post. index_body r name = pre @ repo r @ post)
         \<and> index_data r = [(''custom_edit_url'', JStr (''https://github.com/'' @ repo r))]"
proof -
  from assms(3) obtain w0 st0 where
    rr: "run_repos sys repos \<lparr>world = w0, warnings = [], logs = []\<rparr> = Inr st0"
    and st: "st = st0\<lparr>logs := logs st0 @ [''Aggregation complete.'']\<rparr>"
    by (auto simp: run_with_def and_then_eq_Inr)
  from run_repos_index [OF assms(1) rr assms(4)] st
  have first: "\<exists>name. short_name r = Some name
            \<and> (skip_warning sys r \<in> set (warnings st)
                 \<or> hasIndex sys (path_join sys OUT_ROOT name) (world st))"
    by simp
  have second: "\<forall>name st1 st2 w1 w2.
               short_name r = Some name
               \<and> existsSync sys (srcDocs_of sys r) (world st1)
               \<and> copy_docs sys r (srcDocs_of sys r) (path_join sys OUT_ROOT name) (world st1) = Inr w1
               \<and> inject_custom_edit_url sys r (path_join sys OUT_ROOT name) w1 = Inr w2
               \<and> \<not> hasIndex sys (path_join sys OUT_ROOT name) w2
               \<and> process_repo sys r st1 = Inr st2
               \<longrightarrow> (\<exists>doc. stringify sys (index_body r name) (index_data r) = Inr doc
                      \<and> writeFile sys (path_join sys (path_join sys OUT_ROOT name) ''index.md'') doc w2
                           = Inr (world st2)
                      \<and> readFile sys (path_join sys (path_join sys OUT_ROOT name) ''index.md'')
                           (world st2) = Inr doc)"
    using process_repo_synthesizes [OF assms(2)] by blast
  have third: "\<forall>name st1 w1 w2.
               short_name r = Some name
               \<and> existsSync sys (srcDocs_of sys r) (world st1)
               \<and> copy_docs sys r (srcDocs_of sys r) (path_join sys OUT_ROOT name) (world st1) = Inr w1
               \<and> inject_custom_edit_url sys r (path_join sys OUT_ROOT name) w1 = Inr w2
               \<and> hasIndex sys (path_join sys OUT_ROOT name) w2
               \<longrightarrow> process_repo sys r st1 = Inr (st1\<lparr>world := w2\<rparr>)"
    by (intro allI impI, elim conjE) (rule process_repo_has_index; assumption)
  show ?thesis
    using first second third index_body_heading index_body_names_repo
    by (simp add: index_data_def)
qed

theorem fallback_index_witness:
  "keeps_paths mem_sys \<and> reads_back mem_sys
   \<and> run_with mem_sys demo_repos demo_world = Inr demo_final
   \<and> sdk_repo \<in> set demo_repos
   \<and> short_name sdk_repo = Some ''sdk''
   \<and> skip_warning mem_sys sdk_repo \<notin> set (warnings demo_final)
   \<and> hasIndex mem_sys ''projects/sdk'' (world demo_final)
   \<and> existsSync mem_sys (srcDocs_of mem_sys sdk_repo) (world demo_cleared_state)
   \<and> copy_docs mem_sys sdk_repo (srcDocs_of mem_sys sdk_repo) ''projects/sdk''
        (world demo_cleared_state) = Inr sdk_copied
   \<and> inject_custom_edit_url mem_sys sdk_repo ''projects/sdk'' sdk_copied = Inr sdk_injected
   \<and> \<not> hasIndex mem_sys ''projects/sdk'' sdk_injected
   \<and> process_repo mem_sys sdk_repo demo_cleared_state = Inr sdk_done
   \<and> stringify mem_sys (index_body sdk_repo ''sdk'') (index_data sdk_repo) = Inr sdk_index_doc
   \<and> writeFile mem_sys ''projects/sdk/index.md'' sdk_index_doc sdk_injected = Inr (world sdk_done)
   \<and> readFile mem_sys ''projects/sdk/index.md'' (world sdk_done) = Inr sdk_index_doc
   \<and> readFile mem_sys ''projects/sdk/index.md'' (world demo_final) = Inr sdk_index_doc
   \<and> hd (split_on newline (index_body sdk_repo ''sdk'')) = ''# sdk''
   \<and> existsSync mem_sys (srcDocs_of mem_sys ui_repo) (world sdk_done)
   \<and> copy_docs mem_sys ui_repo (srcDocs_of mem_sys ui_repo) ''projects/ui'' (world sdk_done)
        = Inr ui_copied
   \<and> inject_custom_edit_url mem_sys ui_repo ''projects/ui'' ui_copied = Inr ui_injected
   \<and> hasIndex mem_sys ''projects/ui'' ui_injected
   \<and> process_repo mem_sys ui_repo sdk_done = Inr (sdk_done\<lparr>world := ui_injected\<rparr>)
   \<and> readFile mem_sys ''projects/ui/index.md'' ui_injected = Inl (FsError ENOENT)
   \<and> readFile mem_sys ''projects/ui/README.md'' ui_injected = Inr ui_written_doc"
proof -
  have m: "sdk_repo \<in> set demo_repos"
    by (simp add: demo_repos_def)
  have n: "short_name sdk_repo = Some ''sdk''" "short_name ui_repo = Some ''ui''"
    by code_simp+
  have p: "path_join mem_sys OUT_ROOT ''sdk'' = ''projects/sdk''"
    "path_join mem_sys OUT_ROOT ''ui'' = ''projects/ui''"
    "path_join mem_sys ''projects/sdk'' ''index.md'' = ''projects/sdk/index.md''"
    by code_simp+
  have s: "skip_warning mem_sys sdk_repo \<notin> set (warnings demo_final)"
    by code_simp
  have a1: "existsSync mem_sys (srcDocs_of mem_sys sdk_repo) (world demo_cleared_state)"
    by code_simp
  have a2: "copy_docs mem_sys sdk_repo (srcDocs_of mem_sys sdk_repo) ''projects/sdk''
        (world demo_cleared_state) = Inr sdk_copied"
    by code_simp
  have a3: "inject_custom_edit_url mem_sys sdk_repo ''projects/sdk'' sdk_copied = Inr sdk_injected"
    by code_simp
  have a4: "\<not> hasIndex mem_sys ''projects/sdk'' sdk_injected"
    by code_simp
  have a5: "process_repo mem_sys sdk_repo demo_cleared_state = Inr sdk_done"
    by code_simp
  have a6: "stringify mem_sys (index_body sdk_repo ''sdk'') (index_data sdk_repo) = Inr sdk_index_doc"
    by code_simp
  have a7: "readFile mem_sys ''projects/sdk/index.md'' (world demo_final) = Inr sdk_index_doc"
    by code_simp
  have a8: "newline \<notin> set ''sdk''"
    by code_simp
  have b1: "existsSync mem_sys (srcDocs_of mem_sys ui_repo) (world sdk_done)"
    by code_simp
  have b2: "copy_docs mem_sys ui_repo (srcDocs_of mem_sys ui_repo) ''projects/ui'' (world sdk_done)
        = Inr ui_copied"
    by code_simp
  have b3: "inject_custom_edit_url mem_sys ui_repo ''projects/ui'' ui_copied = Inr ui_injected"
    by code_simp
  have b4: "hasIndex mem_sys ''projects/ui'' ui_injected"
    by code_simp
  have b5: "readFile mem_sys ''projects/ui/index.md'' ui_injected = Inl (FsError ENOENT)
   \<and> readFile mem_sys ''projects/ui/README.md'' ui_injected = Inr ui_written_doc"
    by code_simp
  note fi = fallback_index [OF mem_keeps_paths mem_reads_back demo_run m]
  from fi n(1) s p(1) have c1: "hasIndex mem_sys ''projects/sdk'' (world demo_final)"
    by auto
  from fi have "short_name sdk_repo = Some ''sdk''
               \<and> existsSync mem_sys (srcDocs_of mem_sys sdk_repo) (world demo_cleared_state)
               \<and> copy_docs mem_sys sdk_repo (srcDocs_of mem_sys sdk_repo) (path_join mem_sys OUT_ROOT ''sdk'') (world demo_cleared_state) = Inr sdk_copied
               \<and> inject_custom_edit_url mem_sys sdk_repo (path_join mem_sys OUT_ROOT ''sdk'') sdk_copied = Inr sdk_injected
               \<and> \<not> hasIndex mem_sys (path_join mem_sys OUT_ROOT ''sdk'') sdk_injected
               \<and> process_repo mem_sys sdk_repo demo_cleared_state = Inr sdk_done
               \<longrightarrow> (\<exists>doc. stringify mem_sys (index_body sdk_repo ''sdk'') (index_data sdk_repo) = Inr doc
                      \<and> writeFile mem_sys (path_join mem_sys (path_join mem_sys OUT_ROOT ''sdk'') ''index.md'') doc sdk_injected
                           = Inr (world sdk_done)
                      \<and> readFile mem_sys (path_join mem_sys (path_join mem_sys OUT_ROOT ''sdk'') ''index.md'')
                           (world sdk_done) = Inr doc)"
    by blast
  with n(1) a1 a2 a3 a4 a5 a6 p
  have c2: "writeFile mem_sys ''projects/sdk/index.md'' sdk_index_doc sdk_injected = Inr (world sdk_done)"
    and c3: "readFile mem_sys ''projects/sdk/index.md'' (world sdk_done) = Inr sdk_index_doc"
    by auto
  from fi a8 have c4: "hd (split_on newline (index_body sdk_repo ''sdk'')) = ''# sdk''"
    by auto
  have m2: "ui_repo \<in> set demo_repos"
    by (simp add: demo_repos_def)
  from fallback_index [OF mem_keeps_paths mem_reads_back demo_run m2]
  have "short_name ui_repo = Some ''ui''
               \<and> existsSync mem_sys (srcDocs_of mem_sys ui_repo) (world sdk_done)
               \<and> copy_docs mem_sys ui_repo (srcDocs_of mem_sys ui_repo) (path_join mem_sys OUT_ROOT ''ui'') (world sdk_done) = Inr ui_copied
               \<and> inject_custom_edit_url mem_sys ui_repo (path_join mem_sys OUT_ROOT ''ui'') ui_copied = Inr ui_injected
               \<and> hasIndex mem_sys (path_join mem_sys OUT_ROOT ''ui'') ui_injected
               \<longrightarrow> process_repo mem_sys ui_repo sdk_done = Inr (sdk_done\<lparr>world := ui_injected\<rparr>)"
    by blast
  with n(2) b1 b2 b3 b4 p
  have c5: "process_repo mem_sys ui_repo sdk_done = Inr (sdk_done\<lparr>world := ui_injected\<rparr>)"
    by simp
  show ?thesis
    using mem_keeps_paths mem_reads_back demo_run m n s c1 a1 a2 a3 a4 a5 a6 c2 c3 a7 c4
      b1 b2 b3 b4 b5 c5
    by simp
qed

section \<open>The output root and the environment\<close>

text \<open>
  C8. The specification lets an environment variable override the output root, and the
  test suite sets \<^verbatim>\<open>OUT_ROOT\<close> to \<^verbatim>\<open>test-projects\<close> and looks for the output there.
  The script never reads the environment: run on the test sources with that variable
  set, it succeeds, writes under \<^verbatim>\<open>projects\<close>, and \<^verbatim>\<open>test-projects\<close> does not exist
  afterwards.
\<close>

theorem output_root_ignores_environment:
  "exit_status (aggregate_script test_env mem_sys test_sources) = 0
   \<and> exists_after ''projects/peers-sdk/index.md'' (aggregate_script test_env mem_sys test_sources)
   \<and> exists_after ''projects/peers-ui/README.md'' (aggregate_script test_env mem_sys test_sources)
   \<and> \<not> exists_after ''test-projects'' (aggregate_script test_env mem_sys test_sources)"
  by code_simp

section \<open>Which files are selected\<close>

text \<open>
  The claim C9 as the specification states it: no file outside the markdown family is
  copied into the output tree. A repo with a dedicated directory has the whole
  directory copied, and the second pass of the root-level convention takes every file
  under \<^verbatim>\<open>docs/\<close>: after the run on the example, both images are in the output tree.
\<close>

theorem markdown_only_counterexample:
  "run_with mem_sys demo_repos demo_world = Inr demo_final
   \<and> map_of (mem_files (world demo_final)) ''projects/sdk/logo.png'' = Some ''PNG''
   \<and> map_of (mem_files (world demo_final)) ''projects/ui/docs/shot.png'' = Some ''PNG''
   \<and> \<not> markdown_family ''projects/sdk/logo.png''
   \<and> \<not> markdown_family ''projects/ui/docs/shot.png''"
  by code_simp

text \<open>
  C9, amended. Under the root-level convention, the documents of a repo are copied in
  two passes. The first copies the files of the walk that match \<^verbatim>\<open>*.md\<close> or
  \<^verbatim>\<open>*.mdx\<close>, and these are top-level files of the markdown family. The second copies
  the files of the walk that match one of the four document patterns and still exist,
  each after its directory is created; every file in a documentation directory
  (\<^verbatim>\<open>docs/\<close> or \<^verbatim>\<open>documentation/\<close>) matches, whatever its extension. For a dedicated
  directory the selection is one copy of the whole directory, whatever it holds. The
  pass that rewrites front matter takes the files of the walk that match
  \<^verbatim>\<open>**/*.md\<close> or \<^verbatim>\<open>**/*.mdx\<close>, and these are of the markdown family.
\<close>

theorem markdown_selection:
  "(docsDir r = Some ''.'' \<and> ensureDir sys out w = Inr w1 \<and> walk sys srcDocs w1 = Inr found
      \<longrightarrow> copy_docs sys r srcDocs out w =
            and_then (copy_markdownFiles sys srcDocs out
                        (filter (\<lambda>f. \<exists>p \<in> set [''*.md'', ''*.mdx'']. glob_match p f) found) w1)
              (\<lambda>w2. and_then (globby sys docPatterns srcDocs w2)
                       (\<lambda>docFiles. copy_docFiles sys srcDocs out docFiles w2)))
   \<and> (\<forall>f. (\<exists>p \<in> set [''*.md'', ''*.mdx'']. glob_match p f)
          \<longrightarrow> markdown_family f \<and> CHR ''/'' \<notin> set f)
   \<and> (walk sys srcDocs w = Inr found
        \<longrightarrow> globby sys docPatterns srcDocs w
              = Inr (filter (\<lambda>f. \<exists>p \<in> set docPatterns. glob_match p f) found))
   \<and> (\<forall>f. in_doc_dir f \<longrightarrow> (\<exists>p \<in> set docPatterns. glob_match p f))
   \<and> (existsSync sys (path_join sys srcDocs f) w
        \<longrightarrow> copy_docFiles sys srcDocs out (f # later) w =
              and_then (ensureDir sys (path_dirname sys (path_join sys out f)) w)
                (\<lambda>w1. and_then (copy sys (path_join sys srcDocs f) (path_join sys out f) w1)
                   (\<lambda>w2. copy_docFiles sys srcDocs out later w2)))
   \<and> (docsDir r \<noteq> Some ''.'' \<longrightarrow> copy_docs sys r srcDocs out w = copy sys srcDocs out w)
   \<and> (walk sys out w = Inr found
        \<longrightarrow> inject_custom_edit_url sys r out w =
              inject_files sys r out
                (filter (\<lambda>f. \<exists>p \<in> set [''**/*.md'', ''**/*.mdx'']. glob_match p f) found) w)
   \<and> (\<forall>f. (\<exists>p \<in> set [''**/*.md'', ''**/*.mdx'']. glob_match p f) \<longrightarrow> markdown_family f)"
proof (intro conjI impI allI)
  assume "docsDir r = Some ''.'' \<and> ensureDir sys out w = Inr w1 \<and> walk sys srcDocs w1 = Inr found"
  then show "copy_docs sys r srcDocs out w =
            and_then (copy_markdownFiles sys srcDocs out
                        (filter (\<lambda>f. \<exists>p \<in> set [''*.md'', ''*.mdx'']. glob_match p f) found) w1)
              (\<lambda>w2. and_then (globby sys docPatterns srcDocs w2)
                       (\<lambda>docFiles. copy_docFiles sys srcDocs out docFiles w2))"
    by (simp add: copy_docs_def globby_def)
next
  fix f
  assume a: "\<exists>p \<in> set [''*.md'', ''*.mdx'']. glob_match p f"
  from first_pass_markdown [OF a] show "markdown_family f" and "CHR ''/'' \<notin> set f"
    by simp_all
next
  assume "walk sys srcDocs w = Inr found"
  then show "globby sys docPatterns srcDocs w
              = Inr (filter (\<lambda>f. \<exists>p \<in> set docPatterns. glob_match p f) found)"
    by (simp add: globby_def)
next
  fix f
  assume "in_doc_dir f"
  then show "\<exists>p \<in> set docPatterns. glob_match p f"
    by (rule in_doc_dir_selected)
next
  assume "existsSync sys (path_join sys srcDocs f) w"
  then show "copy_docFiles sys srcDocs out (f # later) w =
              and_then (ensureDir sys (path_dirname sys (path_join sys out f)) w)
                (\<lambda>w1. and_then (copy sys (path_join sys srcDocs f) (path_join sys out f) w1)
                   (\<lambda>w2. copy_docFiles sys srcDocs out later w2))"
    by (simp add: Let_def)
next
  assume "docsDir r \<noteq> Some ''.''"
  then show "copy_docs sys r srcDocs out w = copy sys srcDocs out w"
    by (simp add: copy_docs_def)
next
  assume "walk sys out w = Inr found"
  then show "inject_custom_edit_url sys r out w =
              inject_files sys r out
                (filter (\<lambda>f. \<exists>p \<in> set [''**/*.md'', ''**/*.mdx'']. glob_match p f) found) w"
    by (simp add: inject_custom_edit_url_def globby_def)
next
  fix f
  assume "\<exists>p \<in> set [''**/*.md'', ''**/*.mdx'']. glob_match p f"
  then show "markdown_family f"
    by (rule rewrite_pass_markdown)
qed

theorem markdown_selection_witness:
  "docsDir ui_repo = Some ''.''
   \<and> ensureDir mem_sys ''projects/ui'' (world sdk_done) = Inr ui_ensured
   \<and> walk mem_sys ''_sources/ui'' ui_ensured = Inr [''README.md'', ''docs/shot.png'', ''package.json'']
   \<and> copy_docs mem_sys ui_repo ''_sources/ui'' ''projects/ui'' (world sdk_done) =
        and_then (copy_markdownFiles mem_sys ''_sources/ui'' ''projects/ui'' [''README.md''] ui_ensured)
          (\<lambda>w2. and_then (globby mem_sys docPatterns ''_sources/ui'' w2)
                   (\<lambda>docFiles. copy_docFiles mem_sys ''_sources/ui'' ''projects/ui'' docFiles w2))
   \<and> copy_docs mem_sys ui_repo ''_sources/ui'' ''projects/ui'' (world sdk_done) = Inr ui_copied
   \<and> markdown_family ''README.md'' \<and> CHR ''/'' \<notin> set ''README.md''
   \<and> globby mem_sys docPatterns ''_sources/ui'' ui_ensured = Inr [''README.md'', ''docs/shot.png'']
   \<and> in_doc_dir ''docs/shot.png'' \<and> \<not> markdown_family ''docs/shot.png''
   \<and> (\<exists>p \<in> set docPatterns. glob_match p ''docs/shot.png'')
   \<and> existsSync mem_sys (path_join mem_sys ''_sources/ui'' ''docs/shot.png'') ui_ensured
   \<and> copy_docFiles mem_sys ''_sources/ui'' ''projects/ui'' [''docs/shot.png''] ui_ensured =
        and_then (ensureDir mem_sys ''projects/ui/docs'' ui_ensured)
          (\<lambda>w1. copy mem_sys ''_sources/ui/docs/shot.png'' ''projects/ui/docs/shot.png'' w1)
   \<and> map_of (mem_files ui_copied) ''projects/ui/docs/shot.png'' = Some ''PNG''
   \<and> map_of (mem_files ui_copied) ''projects/ui/package.json'' = None
   \<and> docsDir sdk_repo \<noteq> Some ''.''
   \<and> copy_docs mem_sys sdk_repo ''_sources/sdk/docs'' ''projects/sdk'' demo_cleared
       = copy mem_sys ''_sources/sdk/docs'' ''projects/sdk'' demo_cleared
   \<and> map_of (mem_files sdk_copied) ''projects/sdk/logo.png'' = Some ''PNG''
   \<and> walk mem_sys ''projects/ui'' ui_copied = Inr [''README.md'', ''docs/shot.png'']
   \<and> inject_custom_edit_url mem_sys ui_repo ''projects/ui'' ui_copied
       = inject_files mem_sys ui_repo ''projects/ui'' [''README.md''] ui_copied
   \<and> map_of (mem_files ui_injected) ''projects/ui/docs/shot.png'' = Some ''PNG''
   \<and> map_of (mem_files ui_injected) ''projects/ui/README.md'' = Some ui_written_doc"
proof -
  have a1: "docsDir ui_repo = Some ''.''"
    by code_simp
  have a2: "ensureDir mem_sys ''projects/ui'' (world sdk_done) = Inr ui_ensured"
    by code_simp
  have a3: "walk mem_sys ''_sources/ui'' ui_ensured = Inr [''README.md'', ''docs/shot.png'', ''package.json'']"
    by code_simp
  have a4: "filter (\<lambda>f. \<exists>p \<in> set [''*.md'', ''*.mdx'']. glob_match p f)
              [''README.md'', ''docs/shot.png'', ''package.json''] = [''README.md'']"
    by code_simp
  have a5: "filter (\<lambda>f. \<exists>p \<in> set docPatterns. glob_match p f)
              [''README.md'', ''docs/shot.png'', ''package.json''] = [''README.md'', ''docs/shot.png'']"
    by code_simp
  have a6: "in_doc_dir ''docs/shot.png'' \<and> \<not> markdown_family ''docs/shot.png''"
    by code_simp
  have a7: "existsSync mem_sys (path_join mem_sys ''_sources/ui'' ''docs/shot.png'') ui_ensured"
    by code_simp
  have a8: "path_dirname mem_sys ''projects/ui/docs/shot.png'' = ''projects/ui/docs''"
    "path_join mem_sys ''_sources/ui'' ''docs/shot.png'' = ''_sources/ui/docs/shot.png''"
    "path_join mem_sys ''projects/ui'' ''docs/shot.png'' = ''projects/ui/docs/shot.png''"
    by code_simp+
  have e: "copy_docFiles mem_sys ''_sources/ui'' ''projects/ui'' [] = Inr"
    by (rule ext) simp
  have r: "and_then m Inr = m" for m :: "js_error + memfs"
    by (simp add: and_then_def split: sum.splits)
  have a9: "docsDir sdk_repo \<noteq> Some ''.''"
    by code_simp
  have a10: "walk mem_sys ''projects/ui'' ui_copied = Inr [''README.md'', ''docs/shot.png'']"
    by code_simp
  have a11: "filter (\<lambda>f. \<exists>p \<in> set [''**/*.md'', ''**/*.mdx'']. glob_match p f)
              [''README.md'', ''docs/shot.png''] = [''README.md'']"
    by code_simp
  have a12: "glob_match ''*.md'' ''README.md''"
    by code_simp
  have f: "copy_docs mem_sys ui_repo ''_sources/ui'' ''projects/ui'' (world sdk_done) = Inr ui_copied
   \<and> map_of (mem_files ui_copied) ''projects/ui/docs/shot.png'' = Some ''PNG''
   \<and> map_of (mem_files ui_copied) ''projects/ui/package.json'' = None
   \<and> map_of (mem_files sdk_copied) ''projects/sdk/logo.png'' = Some ''PNG''
   \<and> map_of (mem_files ui_injected) ''projects/ui/docs/shot.png'' = Some ''PNG''
   \<and> map_of (mem_files ui_injected) ''projects/ui/README.md'' = Some ui_written_doc"
    by code_simp
  note t1 = markdown_selection [where sys = mem_sys and r = ui_repo and out = "''projects/ui''"
      and srcDocs = "''_sources/ui''" and f = "''docs/shot.png''" and later = "[]"]
  from t1 [where w = "world sdk_done" and ?w1.0 = ui_ensured
      and found = "[''README.md'', ''docs/shot.png'', ''package.json'']"] a1 a2 a3
  have c1: "copy_docs mem_sys ui_repo ''_sources/ui'' ''projects/ui'' (world sdk_done) =
        and_then (copy_markdownFiles mem_sys ''_sources/ui'' ''projects/ui'' [''README.md''] ui_ensured)
          (\<lambda>w2. and_then (globby mem_sys docPatterns ''_sources/ui'' w2)
                   (\<lambda>docFiles. copy_docFiles mem_sys ''_sources/ui'' ''projects/ui'' docFiles w2))"
    unfolding a4 by blast
  from t1 [where w = ui_ensured and found = "[''README.md'', ''docs/shot.png'', ''package.json'']"]
  have "(\<exists>p \<in> set [''*.md'', ''*.mdx'']. glob_match p ''README.md'')
          \<longrightarrow> markdown_family ''README.md'' \<and> CHR ''/'' \<notin> set ''README.md''"
    by blast
  with a12 have c2: "markdown_family ''README.md'' \<and> CHR ''/'' \<notin> set ''README.md''"
    by simp
  from t1 [where w = ui_ensured and found = "[''README.md'', ''docs/shot.png'', ''package.json'']"] a3
  have c3: "globby mem_sys docPatterns ''_sources/ui'' ui_ensured = Inr [''README.md'', ''docs/shot.png'']"
    unfolding a5 by blast
  from t1 [where w = ui_ensured and found = "[]"] a6
  have c4: "\<exists>p \<in> set docPatterns. glob_match p ''docs/shot.png''"
    by blast
  from t1 [where w = ui_ensured and found = "[]"] a7
  have "copy_docFiles mem_sys ''_sources/ui'' ''projects/ui'' [''docs/shot.png''] ui_ensured =
        and_then (ensureDir mem_sys (path_dirname mem_sys (path_join mem_sys ''projects/ui'' ''docs/shot.png'')) ui_ensured)
                (\<lambda>w1. and_then (copy mem_sys (path_join mem_sys ''_sources/ui'' ''docs/shot.png'') (path_join mem_sys ''projects/ui'' ''docs/shot.png'') w1)
                   (\<lambda>w2. copy_docFiles mem_sys ''_sources/ui'' ''projects/ui'' [] w2))"
    by blast
  then have c5: "copy_docFiles mem_sys ''_sources/ui'' ''projects/ui'' [''docs/shot.png''] ui_ensured =
        and_then (ensureDir mem_sys ''projects/ui/docs'' ui_ensured)
          (\<lambda>w1. copy mem_sys ''_sources/ui/docs/shot.png'' ''projects/ui/docs/shot.png'' w1)"
    by (simp only: a8 e r)
  from markdown_selection [where sys = mem_sys and r = sdk_repo and out = "''projects/sdk''"
      and srcDocs = "''_sources/sdk/docs''" and w = demo_cleared] a9
  have c6: "copy_docs mem_sys sdk_repo ''_sources/sdk/docs'' ''projects/sdk'' demo_cleared
       = copy mem_sys ''_sources/sdk/docs'' ''projects/sdk'' demo_cleared"
    by blast
  from t1 [where w = ui_copied and found = "[''README.md'', ''docs/shot.png'']"] a10
  have c7: "inject_custom_edit_url mem_sys ui_repo ''projects/ui'' ui_copied
       = inject_files mem_sys ui_repo ''projects/ui'' [''README.md''] ui_copied"
    unfolding a11 by blast
  show ?thesis
    by (intro conjI) (use a1 a2 a3 a6 a7 a9 a10 f c1 c2 c3 c4 c5 c6 c7 in blast)+
qed

section \<open>A nullish \<^verbatim>\<open>custom_edit_url\<close>\<close>

text \<open>
  C10. When the existing front matter has the key \<^verbatim>\<open>custom_edit_url\<close> with the value
  \<^verbatim>\<open>null\<close> or \<^verbatim>\<open>undefined\<close>, the document written has the computed default URL under
  that key, which stays where it was among the keys: the merge replaces a nullish value
  as it fills in an absent key.
\<close>

theorem nullish_custom_edit_url_replaced:
  assumes "readFile sys (path_join sys out rel) w = Inr raw" and "matter sys raw = Inr fm"
    and "has_key (data fm) ''custom_edit_url''"
    and "nullish (obj_get (data fm) ''custom_edit_url'')"
  shows "inject_file sys r out rel w =
           and_then (stringify sys (trimStart (content fm) @ [newline])
                       (merge_data (data fm) (custom_url r rel)))
             (\<lambda>doc. writeFile sys (path_join sys out rel) doc w)
         \<and> obj_get (merge_data (data fm) (custom_url r rel)) ''custom_edit_url''
             = JStr (custom_url r rel)
         \<and> map fst (merge_data (data fm) (custom_url r rel)) = map fst (data fm)"
  using inject_file_eq [OF assms(1,2)] merge_nullish [OF assms(4)] assms(3)
  by (simp add: merge_data_def keys_obj_set)

lemma null_url_read:
  "readFile mem_sys (path_join mem_sys ''projects/ui'' ''README.md'') null_url_world = Inr null_url_doc"
  by code_simp

lemma null_url_decode:
  "decode null_url_doc = \<lparr>data = [(''title'', JStr ''UI''), (''custom_edit_url'', JNull)], content = ''# UI''\<rparr>"
  by code_simp

lemma null_url_matter: "matter mem_sys null_url_doc = Inr (decode null_url_doc)"
  by (simp add: mem_sys_def)

theorem nullish_custom_edit_url_replaced_witness:
  "readFile mem_sys (path_join mem_sys ''projects/ui'' ''README.md'') null_url_world = Inr null_url_doc
   \<and> matter mem_sys null_url_doc = Inr (decode null_url_doc)
   \<and> has_key (data (decode null_url_doc)) ''custom_edit_url''
   \<and> nullish (obj_get (data (decode null_url_doc)) ''custom_edit_url'')
   \<and> obj_get (merge_data (data (decode null_url_doc)) (custom_url ui_repo ''README.md''))
        ''custom_edit_url'' = JStr (custom_url ui_repo ''README.md'')
   \<and> map fst (merge_data (data (decode null_url_doc)) (custom_url ui_repo ''README.md''))
        = [''title'', ''custom_edit_url'']"
proof -
  have k: "has_key (data (decode null_url_doc)) ''custom_edit_url''"
    by (simp add: null_url_decode has_key_def)
  have n: "nullish (obj_get (data (decode null_url_doc)) ''custom_edit_url'')"
    by (simp add: null_url_decode obj_get_def nullish_def)
  have ks: "map fst (data (decode null_url_doc)) = [''title'', ''custom_edit_url'']"
    by (simp add: null_url_decode)
  from nullish_custom_edit_url_replaced [OF null_url_read null_url_matter k n, of ui_repo]
  show ?thesis
    using null_url_read null_url_matter k n ks by simp
qed

end
